theory Spec2Isabelle
  imports Main "HOL-Library.AList"
begin

section \<open>Transactions and the store (transaction.ts, store.ts)\<close>

text \<open>
  The transaction manager is one process-wide object; every store reads it. The model
  keeps both in one record, the world: the manager's fields, the two subjects of
  transaction.ts that report the transaction state, and the store objects, addressed by
  a number. A thrown JavaScript exception is a value of type \<open>exn\<close>; a call that may
  throw returns \<open>exn + 'a\<close>, with \<open>Inl\<close> for the exception.

  The rxjs \<open>Subject\<close> that \<open>startBatch\<close> creates is the list of its observers and its
  \<open>isStopped\<close> flag. Its only observers are the subscriptions that \<open>Store.watchTransaction\<close>
  makes, so an observer is the number of the store that subscribed. The
  \<open>BehaviorSubject\<close> of a store (\<open>this.store\<close>) is the list of the states it has
  emitted, oldest first; \<open>None\<close> is the field before the constructor's first
  \<open>_setState\<close>. The subscribers of a store are passive: they read the emitted state and
  do not call back into a store.
\<close>

datatype exn = TypeError | Thrown string

record Subject =
  observers :: "nat list"
  isStopped :: bool

record 'S Store =
  storeValue :: 'S
  inTransaction :: bool
  store :: "'S list option"
  cache_active :: bool

record ('S, 'z) World =
  activeTransactions :: int
  batchTransaction :: "Subject option"
  transactionInProcess :: bool
  transactionFinished :: nat
  stores :: "nat \<Rightarrow> ('S, 'z) Store_scheme"

definition upd_store ::
  "nat \<Rightarrow> (('S, 'z) Store_scheme \<Rightarrow> ('S, 'z) Store_scheme) \<Rightarrow> ('S, 'z) World \<Rightarrow> ('S, 'z) World" where
  "upd_store sid f w = w\<lparr>stores := (stores w)(sid := f (stores w sid))\<rparr>"

definition isTransactionInProcess :: "('S, 'z) World \<Rightarrow> bool" where
  "isTransactionInProcess w = (activeTransactions w > 0)"

definition startBatch :: "('S, 'z) World \<Rightarrow> ('S, 'z) World" where
  "startBatch w =
     (let w1 = (if \<not> isTransactionInProcess w
                then w\<lparr>batchTransaction := Some \<lparr>observers = [], isStopped = False\<rparr>\<rparr>
                else w)
      in w1\<lparr>activeTransactions := activeTransactions w1 + 1, transactionInProcess := True\<rparr>)"

text \<open>
  \<open>Store.dispatch\<close>: \<open>this.store.next(state)\<close>. The root dispatcher and the action log
  are developer tooling outside the model. Both callers run only after \<open>this.store\<close>
  exists (\<open>_setState\<close> returns early while it does not), so the \<open>None\<close> case is not
  reached from them.
\<close>

definition Store_dispatch :: "nat \<Rightarrow> 'S \<Rightarrow> ('S, 'z) World \<Rightarrow> ('S, 'z) World" where
  "Store_dispatch sid state w =
     upd_store sid (\<lambda>st. st\<lparr>store := map_option (\<lambda>emitted. emitted @ [state]) (store st)\<rparr>) w"

text \<open>The subscriber that \<open>watchTransaction\<close> registers on \<open>commit()\<close>.\<close>

definition commit_subscriber :: "nat \<Rightarrow> ('S, 'z) World \<Rightarrow> ('S, 'z) World" where
  "commit_subscriber sid w =
     (let w1 = upd_store sid (\<lambda>st. st\<lparr>inTransaction := False\<rparr>) w
      in Store_dispatch sid (storeValue (stores w1 sid)) w1)"

text \<open>
  \<open>commit()\<close> is the batch subject, or \<open>of(true)\<close> when there is none; \<open>of(true)\<close> calls
  its subscriber at once, and a stopped subject never calls it.
\<close>

definition Store_watchTransaction :: "nat \<Rightarrow> ('S, 'z) World \<Rightarrow> ('S, 'z) World" where
  "Store_watchTransaction sid w =
     (case batchTransaction w of
        None \<Rightarrow> commit_subscriber sid w
      | Some subj \<Rightarrow>
          if isStopped subj then w
          else w\<lparr>batchTransaction := Some (subj\<lparr>observers := observers subj @ [sid]\<rparr>)\<rparr>)"

definition Store_handleTransaction :: "nat \<Rightarrow> ('S, 'z) World \<Rightarrow> ('S, 'z) World" where
  "Store_handleTransaction sid w =
     (if \<not> inTransaction (stores w sid)
      then upd_store sid (\<lambda>st. st\<lparr>inTransaction := True\<rparr>) (Store_watchTransaction sid w)
      else w)"

definition Store_setState :: "nat \<Rightarrow> ('S \<Rightarrow> 'S) \<Rightarrow> ('S, 'z) World \<Rightarrow> ('S, 'z) World" where
  "Store_setState sid newStateFn w =
     (let w1 = upd_store sid (\<lambda>st. st\<lparr>storeValue := newStateFn (storeValue st)\<rparr>) w
      in case store (stores w1 sid) of
           None \<Rightarrow> upd_store sid (\<lambda>st. st\<lparr>store := Some [storeValue st]\<rparr>) w1
         | Some _ \<Rightarrow>
             if isTransactionInProcess w1 then Store_handleTransaction sid w1
             else Store_dispatch sid (storeValue (stores w1 sid)) w1)"

definition Store_setHasCache :: "nat \<Rightarrow> bool \<Rightarrow> ('S, 'z) World \<Rightarrow> ('S, 'z) World" where
  "Store_setHasCache sid hasCache w =
     (if hasCache \<noteq> cache_active (stores w sid)
      then upd_store sid (\<lambda>st. st\<lparr>cache_active := hasCache\<rparr>) w
      else w)"

text \<open>\<open>Subject.next\<close> on the batch subject calls every observer, in subscription order.\<close>

definition Subject_next :: "Subject \<Rightarrow> ('S, 'z) World \<Rightarrow> ('S, 'z) World" where
  "Subject_next subj w = (if isStopped subj then w else fold commit_subscriber (observers subj) w)"

definition Subject_complete :: "Subject \<Rightarrow> Subject" where
  "Subject_complete subj = subj\<lparr>observers := [], isStopped := True\<rparr>"

text \<open>
  \<open>endBatch\<close>. Reading \<open>batchTransaction.next\<close> while the field is still \<open>null\<close> is a
  TypeError.
\<close>

definition endBatch :: "('S, 'z) World \<Rightarrow> ('S, 'z) World \<times> (exn + unit)" where
  "endBatch w =
     (let w1 = w\<lparr>activeTransactions := activeTransactions w - 1\<rparr>
      in if activeTransactions w1 = 0
         then (case batchTransaction w1 of
                 None \<Rightarrow> (w1, Inl TypeError)
               | Some subj \<Rightarrow>
                   (let w2 = Subject_next subj w1;
                        w3 = w2\<lparr>batchTransaction := map_option Subject_complete (batchTransaction w2)\<rparr>
                    in (w3\<lparr>transactionInProcess := False,
                            transactionFinished := Suc (transactionFinished w3)\<rparr>, Inr ())))
         else (w1, Inr ()))"

text \<open>
  \<open>applyTransaction\<close>: \<open>try { return action() } finally { endBatch() }\<close>. The \<open>finally\<close>
  block runs on both exits; an exception of the block itself replaces the pending result.
  The block's \<open>logAction\<close> is developer tooling outside the model.
\<close>

definition applyTransaction ::
  "(('S, 'z) World \<Rightarrow> ('S, 'z) World \<times> (exn + 'a)) \<Rightarrow> ('S, 'z) World \<Rightarrow> ('S, 'z) World \<times> (exn + 'a)" where
  "applyTransaction action w =
     (let w1 = startBatch w;
          (w2, r) = action w1;
          (w3, r') = endBatch w2
      in (w3, case r' of Inl e \<Rightarrow> Inl e | Inr _ \<Rightarrow> r))"

text \<open>
  The actions that the theorems about transactions range over: writes to stores, nested
  transactions and \<open>throw\<close>, in sequence. A sequence stops at the first exception.
\<close>

datatype 'S action =
    SetState nat "'S \<Rightarrow> 'S"
  | Throw exn
  | ApplyTransaction "'S action list"

fun run :: "'S action \<Rightarrow> ('S, 'z) World \<Rightarrow> ('S, 'z) World \<times> (exn + unit)"
  and run_all :: "'S action list \<Rightarrow> ('S, 'z) World \<Rightarrow> ('S, 'z) World \<times> (exn + unit)" where
  "run (SetState sid f) w = (Store_setState sid f w, Inr ())"
| "run (Throw e) w = (w, Inl e)"
| "run (ApplyTransaction body) w = applyTransaction (\<lambda>w1. run_all body w1) w"
| "run_all [] w = (w, Inr ())"
| "run_all (a # as) w =
     (case run a w of
        (w1, Inl e) \<Rightarrow> (w1, Inl e)
      | (w1, Inr _) \<Rightarrow> run_all as w1)"

text \<open>
  What a sequence of actions does to one store, read off the actions alone: whether it
  throws, and the state functions it passes to that store's \<open>_setState\<close> before it stops.
\<close>

fun throws :: "'S action \<Rightarrow> bool"
  and throws_all :: "'S action list \<Rightarrow> bool" where
  "throws (SetState sid f) = False"
| "throws (Throw e) = True"
| "throws (ApplyTransaction body) = throws_all body"
| "throws_all [] = False"
| "throws_all (a # as) = (throws a \<or> throws_all as)"

fun mutations :: "nat \<Rightarrow> 'S action \<Rightarrow> ('S \<Rightarrow> 'S) list"
  and mutations_all :: "nat \<Rightarrow> 'S action list \<Rightarrow> ('S \<Rightarrow> 'S) list" where
  "mutations sid (SetState sid' f) = (if sid' = sid then [f] else [])"
| "mutations sid (Throw e) = []"
| "mutations sid (ApplyTransaction body) = mutations_all sid body"
| "mutations_all sid [] = []"
| "mutations_all sid (a # as) =
     mutations sid a @ (if throws a then [] else mutations_all sid as)"

definition apply_all :: "('S \<Rightarrow> 'S) list \<Rightarrow> 'S \<Rightarrow> 'S" where
  "apply_all fs s = fold (\<lambda>f x. f x) fs s"

section \<open>The entity collection (entityStore.ts)\<close>

text \<open>
  The class \<open>EntityStore\<close> is the second part of src/akita/__tests__/upsert.spec.ts
  (from line 65 on); the functions it imports from other files are not among the
  sources.

  An id is a JavaScript value (\<open>ID = number | string\<close>; a record without its id field
  yields \<open>undefined\<close>), numbers being integers here. An entity is a plain object: a
  finite map from field names to values; \<open>{...a, ...b}\<close> is \<open>a ++ b\<close>. The \<open>entities\<close>
  object of a collection is a map from ids to entities: property keys are compared as
  the ids themselves, so the model assumes that two different ids of one collection do
  not coerce to the same property name (as \<open>1\<close> and \<open>'1'\<close> would).
\<close>

datatype val = VUndefined | VNull | VBool bool | VNum int | VStr string

type_synonym ID = val

type_synonym entity = "string \<rightharpoonup> val"

datatype 'a one_or_many = One 'a | Many "'a list"

type_synonym IDS = "ID one_or_many"

datatype Active = ActiveId ID | ActiveIds "ID list"

record EntityState =
  ids :: "ID list"
  entities :: "ID \<rightharpoonup> entity"
  active :: Active
  loading :: "bool option"
  error :: val

datatype EntityActions = Action_Set | Action_Add | Action_Update | Action_Remove

record EntityAction =
  action_type :: EntityActions
  action_ids :: "ID list option"

text \<open>
  \<open>EntityStore extends Store\<close>: two more fields, the values that the subjects
  \<open>updatedEntityIds\<close> and \<open>entityActions\<close> have emitted. A store here has no UI store
  (\<open>createUIStore\<close> was not called), so \<open>hasUIStore()\<close> is false.
\<close>

record EntityStore = "EntityState Store" +
  updatedEntityIds :: "ID list list"
  entityActions :: "EntityAction list"

type_synonym EWorld = "(EntityState, unit EntityStore_ext) World"

datatype newStateOrFn = Patch entity | Fn "entity \<Rightarrow> entity"

text \<open>
  The first argument of \<open>update\<close> and of \<open>remove\<close>: nothing (\<open>null\<close> or \<open>undefined\<close>), an
  id or a list of ids, or a predicate. A predicate is called with \<open>entities[id]\<close>, which
  is \<open>undefined\<close> (\<open>None\<close>) for an id without an entity.
\<close>

datatype target = Nil | Ids IDS | Pred "entity option \<Rightarrow> bool"

record AddEntitiesOptions =
  prepend :: "bool option"
  options_loading :: "bool option"

record UpsertOptions =
  baseClass :: "(entity \<Rightarrow> entity) option"

record UpsertManyOptions = UpsertOptions +
  many_loading :: "bool option"

datatype SetEntities =
    SArray "entity list"
  | SObject "(ID \<times> entity) list"
  | SNormalized "ID list" "ID \<rightharpoonup> entity"

definition entity_id :: "string \<Rightarrow> entity \<Rightarrow> ID" where
  "entity_id idKey e = (case e idKey of None \<Rightarrow> VUndefined | Some v \<Rightarrow> v)"

subsection \<open>Helpers that are not among the sources\<close>

text \<open>
  Modelled from the spec: \<open>coerceArray\<close> (coerceArray.ts is not among the sources).
  Section 4.1: it "normalizes the input to a sequence (single entity -> singleton
  sequence)".
\<close>

definition coerceArray :: "'a one_or_many \<Rightarrow> 'a list" where
  "coerceArray x = (case x of One a \<Rightarrow> [a] | Many as \<Rightarrow> as)"

text \<open>
  Modelled from the spec: \<open>isEmpty\<close> (isEmpty.ts is not among the sources). It is true of
  an empty sequence; \<open>null\<close> is not empty, since section 4.1 makes \<open>remove\<close> without a
  target remove everything, which passes \<open>null\<close> through this test.
\<close>

definition isEmpty :: "'a list option \<Rightarrow> bool" where
  "isEmpty arr = (case arr of None \<Rightarrow> False | Some xs \<Rightarrow> xs = [])"

text \<open>
  Modelled from the spec: \<open>hasEntity\<close> (hasEntity.ts is not among the sources): whether
  the mapping has an entity under the id (section 4.1, \<open>upsert\<close>: "exists").
\<close>

definition hasEntity :: "(ID \<rightharpoonup> entity) \<Rightarrow> ID \<Rightarrow> bool" where
  "hasEntity ents entityId = (ents entityId \<noteq> None)"

text \<open>
  Modelled from the spec: \<open>addEntities\<close> (addEntities.ts is not among the sources).
  Section 4.1, \<open>add\<close>: "this base operation does not dedupe - each new record is
  appended/prepended and its id inserted into ids, even if it overwrites an existing
  mapping entry via the hook transform. No-op on an empty input sequence." The result is
  the new state and the added ids, or nothing (\<open>null\<close>).
\<close>

definition addEntities ::
  "EntityState \<Rightarrow> (entity \<Rightarrow> entity) \<Rightarrow> entity list \<Rightarrow> string \<Rightarrow> AddEntitiesOptions
     \<Rightarrow> (EntityState \<times> ID list) option" where
  "addEntities state preAddEntity es idKey options =
     (if es = [] then None
      else
        (let added = map preAddEntity es;
             newIds = map (entity_id idKey) added
         in Some (state\<lparr>entities := fold (\<lambda>e m. m(entity_id idKey e \<mapsto> e)) added (entities state),
                         ids := (if prepend options = Some True then newIds @ ids state
                                 else ids state @ newIds)\<rparr>,
                  newIds)))"

text \<open>
  Modelled from the spec: \<open>updateEntities\<close> (updateEntities.ts is not among the
  sources). Section 4.1, \<open>update\<close>: the patch "is either a partial-field object merged
  onto each selected entity, or a function computing the next entity from the previous";
  "a pre-update hook may transform (previous, next) into the entity actually stored".
  An id without an entity selects no entity.
\<close>

definition updateEntities ::
  "string \<Rightarrow> ID list \<Rightarrow> (entity \<Rightarrow> entity \<Rightarrow> entity) \<Rightarrow> EntityState \<Rightarrow> newStateOrFn \<Rightarrow> EntityState" where
  "updateEntities idKey idList preUpdateEntity state newStateOrFn =
     state\<lparr>entities :=
       fold (\<lambda>id m. case entities state id of
                       None \<Rightarrow> m
                     | Some old \<Rightarrow>
                         m(id \<mapsto> preUpdateEntity old
                                   (case newStateOrFn of Patch p \<Rightarrow> old ++ p | Fn f \<Rightarrow> f old)))
            idList (entities state)\<rparr>"

text \<open>
  Modelled from the spec: \<open>removeEntities\<close> (removeEntities.ts is not among the
  sources). Section 4.1, \<open>remove\<close>: without a target it "resets ids to empty, entities
  to empty"; otherwise "removal of an id must delete it from entities and from ids;
  removal does not currently guarantee pruning of active for single/partial removals".
  The spec leaves open what removing everything does to \<open>active\<close>; the model keeps it,
  and no theorem below depends on that.
\<close>

definition removeEntities :: "EntityState \<Rightarrow> ID list option \<Rightarrow> EntityState" where
  "removeEntities state rm =
     (case rm of
        None \<Rightarrow> state\<lparr>ids := [], entities := Map.empty\<rparr>
      | Some xs \<Rightarrow>
          state\<lparr>ids := filter (\<lambda>id. id \<notin> set xs) (ids state),
                entities := (\<lambda>id. if id \<in> set xs then None else entities state id)\<rparr>)"

text \<open>
  Modelled from the spec: \<open>setEntities\<close> (setEntities.ts is not among the sources).
  Section 4.1, \<open>set\<close>: it "replaces the entire collection"; the source is a sequence of
  entities, an id-to-entity mapping or a normalized pair; it "computes a fresh ids
  sequence (preserving input order for sequence/array input; using mapping's own key
  order otherwise) and a fresh entities mapping. A per-entity hook may transform each
  entity before insertion; if no hook is configured, insertion is a direct structural
  copy". The other fields of the state are kept.
\<close>

definition setEntities ::
  "EntityState \<Rightarrow> SetEntities \<Rightarrow> string \<Rightarrow> (entity \<Rightarrow> entity) \<Rightarrow> bool \<Rightarrow> EntityState" where
  "setEntities state src idKey preAddEntity isNativePreAdd =
     (let hook = (if isNativePreAdd then (\<lambda>e. e) else preAddEntity)
      in case src of
           SArray es \<Rightarrow>
             state\<lparr>ids := map (entity_id idKey) (map hook es),
                   entities := fold (\<lambda>e m. m(entity_id idKey e \<mapsto> e)) (map hook es) Map.empty\<rparr>
         | SObject kvs \<Rightarrow>
             state\<lparr>ids := map fst kvs,
                   entities := fold (\<lambda>(k, e) m. m(k \<mapsto> hook e)) kvs Map.empty\<rparr>
         | SNormalized idList ents \<Rightarrow>
             state\<lparr>ids := idList, entities := (\<lambda>id. map_option hook (ents id))\<rparr>)"

subsection \<open>The methods of \<open>EntityStore\<close>\<close>

text \<open>The hooks, as \<open>EntityStore\<close> itself defines them.\<close>

definition akitaPreUpdateEntity :: "entity \<Rightarrow> entity \<Rightarrow> entity" where
  "akitaPreUpdateEntity prev nextEntity = nextEntity"

definition akitaPreAddEntity :: "entity \<Rightarrow> entity" where
  "akitaPreAddEntity newEntity = newEntity"

definition entityActions_next :: "nat \<Rightarrow> EntityAction \<Rightarrow> EWorld \<Rightarrow> EWorld" where
  "entityActions_next sid a w = upd_store sid (\<lambda>st. st\<lparr>entityActions := entityActions st @ [a]\<rparr>) w"

definition updatedEntityIds_next :: "nat \<Rightarrow> ID list \<Rightarrow> EWorld \<Rightarrow> EWorld" where
  "updatedEntityIds_next sid idList w =
     upd_store sid (\<lambda>st. st\<lparr>updatedEntityIds := updatedEntityIds st @ [idList]\<rparr>) w"

text \<open>\<open>updateCache\<close>; the timer of a configured \<open>ttl\<close> is outside the model.\<close>

definition updateCache :: "nat \<Rightarrow> EWorld \<Rightarrow> EWorld" where
  "updateCache sid w = Store_setHasCache sid True w"

definition EntityStore_set :: "string \<Rightarrow> nat \<Rightarrow> SetEntities option \<Rightarrow> EWorld \<Rightarrow> EWorld" where
  "EntityStore_set idKey sid src w =
     (case src of
        None \<Rightarrow> w
      | Some es \<Rightarrow>
          (let w1 = Store_setState sid
                      (\<lambda>state. setEntities state es idKey akitaPreAddEntity True) w;
               w2 = updateCache sid w1
           in entityActions_next sid
                \<lparr>action_type = Action_Set, action_ids = Some (ids (storeValue (stores w2 sid)))\<rparr> w2))"

definition default_add_options :: AddEntitiesOptions where
  "default_add_options = \<lparr>prepend = None, options_loading = Some False\<rparr>"

definition EntityStore_add ::
  "string \<Rightarrow> nat \<Rightarrow> entity one_or_many \<Rightarrow> AddEntitiesOptions option \<Rightarrow> EWorld \<Rightarrow> EWorld" where
  "EntityStore_add idKey sid es opts w =
     (let options = (case opts of None \<Rightarrow> default_add_options | Some given \<Rightarrow> given);
          collection = coerceArray es
      in if isEmpty (Some collection) then w
         else
           (case addEntities (storeValue (stores w sid)) akitaPreAddEntity collection idKey options of
              None \<Rightarrow> w
            | Some (newState, newIds) \<Rightarrow>
                entityActions_next sid \<lparr>action_type = Action_Add, action_ids = Some newIds\<rparr>
                  (Store_setState sid (\<lambda>_. newState\<lparr>loading := options_loading options\<rparr>) w)))"

text \<open>
  \<open>update\<close> with its two arguments. With one argument it is \<open>Store.update\<close> on the
  fields of the collection, which \<open>upsert\<close> never reaches.
\<close>

definition EntityStore_update :: "string \<Rightarrow> nat \<Rightarrow> target \<Rightarrow> newStateOrFn \<Rightarrow> EWorld \<Rightarrow> EWorld" where
  "EntityStore_update idKey sid idsOrFn newState w =
     (let state = storeValue (stores w sid);
          idList = (case idsOrFn of
                  Pred f \<Rightarrow> filter (\<lambda>id. f (entities state id)) (ids state)
                | Nil \<Rightarrow> ids state
                | Ids x \<Rightarrow> coerceArray x)
      in if isEmpty (Some idList) then w
         else
           entityActions_next sid \<lparr>action_type = Action_Update, action_ids = Some idList\<rparr>
             (updatedEntityIds_next sid idList
               (Store_setState sid
                 (\<lambda>state. updateEntities idKey idList akitaPreUpdateEntity state newState) w)))"

text \<open>\<open>upsert\<close> carries the decorator \<open>@transaction()\<close>: its body runs in \<open>applyTransaction\<close>.\<close>

definition upsert_body ::
  "string \<Rightarrow> nat \<Rightarrow> IDS \<Rightarrow> newStateOrFn \<Rightarrow> UpsertOptions \<Rightarrow> EWorld \<Rightarrow> EWorld \<times> (exn + unit)" where
  "upsert_body idKey sid idList newState options w =
     (let toArray = coerceArray idList;
          ents = entities (storeValue (stores w sid));
          updateIds = filter (\<lambda>id. hasEntity ents id = True) toArray;
          newEntities =
            map (\<lambda>id. let entity = (case newState of Fn f \<Rightarrow> f Map.empty | Patch p \<Rightarrow> p);
                           withId = entity(idKey \<mapsto> id)
                       in case baseClass options of Some construct \<Rightarrow> construct withId
                                                | None \<Rightarrow> withId)
                (filter (\<lambda>id. hasEntity ents id = False) toArray)
      in (EntityStore_add idKey sid (Many newEntities) None
            (EntityStore_update idKey sid (Ids (Many updateIds)) newState w), Inr ()))"

definition EntityStore_upsert ::
  "string \<Rightarrow> nat \<Rightarrow> IDS \<Rightarrow> newStateOrFn \<Rightarrow> UpsertOptions \<Rightarrow> EWorld \<Rightarrow> EWorld \<times> (exn + unit)" where
  "EntityStore_upsert idKey sid idList newState options w =
     applyTransaction (upsert_body idKey sid idList newState options) w"

text \<open>The loop of \<open>upsertMany\<close>: the added ids, the updated ids and the updated entities.\<close>

definition upsertMany_step ::
  "string \<Rightarrow> (ID \<rightharpoonup> entity) \<Rightarrow> (entity \<Rightarrow> entity) option \<Rightarrow> entity
     \<Rightarrow> ID list \<times> ID list \<times> (ID \<rightharpoonup> entity) \<Rightarrow> ID list \<times> ID list \<times> (ID \<rightharpoonup> entity)" where
  "upsertMany_step idKey ents construct e acc =
     (case acc of (addedIds, updatedIds, updatedEntities) \<Rightarrow>
        (let id = entity_id idKey e
         in if hasEntity ents id
            then (addedIds, updatedIds @ [id],
                  updatedEntities(id \<mapsto> (case ents id of None \<Rightarrow> e | Some old \<Rightarrow> old ++ e)))
            else (addedIds @ [id], updatedIds,
                  updatedEntities(id \<mapsto> (case construct of Some c \<Rightarrow> c e | None \<Rightarrow> e)))))"

definition EntityStore_upsertMany ::
  "string \<Rightarrow> nat \<Rightarrow> entity list \<Rightarrow> UpsertManyOptions \<Rightarrow> EWorld \<Rightarrow> EWorld" where
  "EntityStore_upsertMany idKey sid es options w =
     (case fold (upsertMany_step idKey (entities (storeValue (stores w sid))) (baseClass options))
                es ([], [], Map.empty) of
        (addedIds, updatedIds, updatedEntities) \<Rightarrow>
          (let w1 = Store_setState sid
                      (\<lambda>state. state\<lparr>ids := (if addedIds \<noteq> [] then ids state @ addedIds
                                                else ids state),
                                       entities := entities state ++ updatedEntities,
                                       loading := Some (many_loading options = Some True)\<rparr>) w;
               w2 = (if updatedIds \<noteq> []
                     then entityActions_next sid
                            \<lparr>action_type = Action_Update, action_ids = Some updatedIds\<rparr>
                            (updatedEntityIds_next sid updatedIds w1)
                     else w1)
           in if addedIds \<noteq> []
              then entityActions_next sid \<lparr>action_type = Action_Add, action_ids = Some addedIds\<rparr> w2
              else w2))"

definition remove_ids :: "EntityState \<Rightarrow> target \<Rightarrow> ID list option" where
  "remove_ids state idsOrFn =
     (case idsOrFn of
        Pred f \<Rightarrow> Some (filter (\<lambda>entityId. f (entities state entityId)) (ids state))
      | Ids x \<Rightarrow> Some (coerceArray x)
      | Nil \<Rightarrow> None)"

definition EntityStore_remove :: "nat \<Rightarrow> target \<Rightarrow> EWorld \<Rightarrow> EWorld" where
  "EntityStore_remove sid idsOrFn w =
     (if isEmpty (Some (ids (storeValue (stores w sid)))) then w
      else
        (let idList = remove_ids (storeValue (stores w sid)) idsOrFn
         in if isEmpty idList then w
            else
              (let w1 = Store_setState sid (\<lambda>state. removeEntities state idList) w;
                   w2 = (if idList = None then Store_setHasCache sid False w1 else w1)
               in entityActions_next sid \<lparr>action_type = Action_Remove, action_ids = idList\<rparr> w2)))"

section \<open>The entity collection plugin (entityCollectionPlugin.ts, entityStateHistoryPlugin.ts)\<close>

text \<open>
  The class \<open>EntityCollectionPlugin\<close> is the second part of src/unnamed/part_000 (from
  line 23 on).

  The plugin keeps its satellites in a JavaScript \<open>Map\<close>, which iterates in insertion
  order: an association list with distinct keys, \<open>Map.set\<close> being \<open>AList.update\<close> and
  \<open>Map.delete\<close> being \<open>AList.delete\<close>. \<open>entityIds\<close> is \<open>None\<close> when the constructor
  got no ids (all ids are tracked). The ids of the collection, \<open>query.getValue().ids\<close>,
  are the argument \<open>qids\<close> of the functions that read them.

  The plugin calls code that is not its own: the abstract \<open>instantiatePlugin\<close> (a
  parameter, \<open>inst\<close>), the abstract \<open>destroy\<close> (a parameter of \<open>rebase\<close>), the \<open>destroy\<close>
  of a satellite and the callbacks that a caller of \<open>rebase\<close> may pass. The field
  \<open>calls\<close> records these calls in order; the actions of \<open>rebase\<close> say which callbacks
  were passed.
\<close>

datatype plugin_call =
    BeforeAdd ID | Instantiate ID | AfterAdd ID | BeforeRemove ID | Destroy ID bool

record 'p EntityCollectionPlugin =
  plugin_entities :: "(ID \<times> 'p) list"
  entityIds :: "IDS option"
  calls :: "plugin_call list"

record RebaseActions =
  beforeRemove :: bool
  beforeAdd :: bool
  afterAdd :: bool

definition no_actions :: RebaseActions where
  "no_actions = \<lparr>beforeRemove = False, beforeAdd = False, afterAdd = False\<rparr>"

text \<open>
  Modelled from the spec: \<open>toBoolean\<close> (toBoolean.ts is not among the sources), on the
  argument of \<open>rebase\<close>. Section 4.3 sets "an empty/falsy value" of \<open>changedIds\<close> apart
  from the lists that are reconciled: an absent or empty list is false, any other list
  true.
\<close>

definition toBoolean :: "ID list option \<Rightarrow> bool" where
  "toBoolean v = (case v of None \<Rightarrow> False | Some xs \<Rightarrow> xs \<noteq> [])"

definition called :: "plugin_call \<Rightarrow> 'p EntityCollectionPlugin \<Rightarrow> 'p EntityCollectionPlugin" where
  "called c p = p\<lparr>calls := calls p @ [c]\<rparr>"

definition Plugin_getEntity :: "'p EntityCollectionPlugin \<Rightarrow> ID \<Rightarrow> 'p option" where
  "Plugin_getEntity p k = map_of (plugin_entities p) k"

definition Plugin_hasEntity :: "'p EntityCollectionPlugin \<Rightarrow> ID \<Rightarrow> bool" where
  "Plugin_hasEntity p k = (k \<in> set (map fst (plugin_entities p)))"

definition Plugin_removeEntity ::
  "(ID \<Rightarrow> 'p EntityCollectionPlugin \<Rightarrow> 'p EntityCollectionPlugin) \<Rightarrow> ID
     \<Rightarrow> 'p EntityCollectionPlugin \<Rightarrow> 'p EntityCollectionPlugin" where
  "Plugin_removeEntity destroy k p =
     (let p1 = destroy k p in p1\<lparr>plugin_entities := AList.delete k (plugin_entities p1)\<rparr>)"

definition Plugin_createEntity ::
  "ID \<Rightarrow> 'p \<Rightarrow> 'p EntityCollectionPlugin \<Rightarrow> 'p EntityCollectionPlugin" where
  "Plugin_createEntity k plugin p = p\<lparr>plugin_entities := AList.update k plugin (plugin_entities p)\<rparr>"

definition Plugin_getIds :: "ID list \<Rightarrow> 'p EntityCollectionPlugin \<Rightarrow> ID list" where
  "Plugin_getIds qids p = (case entityIds p of None \<Rightarrow> qids | Some x \<Rightarrow> coerceArray x)"

definition Plugin_resolvedIds :: "ID list \<Rightarrow> IDS option \<Rightarrow> 'p EntityCollectionPlugin \<Rightarrow> ID list" where
  "Plugin_resolvedIds qids given p =
     (case given of None \<Rightarrow> Plugin_getIds qids p | Some x \<Rightarrow> coerceArray x)"

text \<open>
  \<open>Map.forEach\<close> visits the entries in insertion order and skips an entry that was
  deleted before its turn.
\<close>

definition Map_forEach ::
  "(ID \<Rightarrow> 'p EntityCollectionPlugin \<Rightarrow> 'p EntityCollectionPlugin)
     \<Rightarrow> 'p EntityCollectionPlugin \<Rightarrow> 'p EntityCollectionPlugin" where
  "Map_forEach f p =
     fold (\<lambda>k q. if Plugin_hasEntity q k then f k q else q) (map fst (plugin_entities p)) p"

text \<open>The body of the two \<open>if\<close> statements of \<open>rebase\<close> that add a satellite.\<close>

definition rebase_add ::
  "(ID \<Rightarrow> 'p) \<Rightarrow> RebaseActions \<Rightarrow> ID \<Rightarrow> 'p EntityCollectionPlugin \<Rightarrow> 'p EntityCollectionPlugin" where
  "rebase_add inst actions entityId p =
     (let p1 = (if beforeAdd actions then called (BeforeAdd entityId) p else p);
          plugin = inst entityId;
          p2 = called (Instantiate entityId) p1;
          p3 = p2\<lparr>plugin_entities := AList.update entityId plugin (plugin_entities p2)\<rparr>
      in if afterAdd actions then called (AfterAdd entityId) p3 else p3)"

definition rebase_remove ::
  "(ID \<Rightarrow> 'p EntityCollectionPlugin \<Rightarrow> 'p EntityCollectionPlugin) \<Rightarrow> RebaseActions \<Rightarrow> ID
     \<Rightarrow> 'p EntityCollectionPlugin \<Rightarrow> 'p EntityCollectionPlugin" where
  "rebase_remove destroy actions entityId p =
     Plugin_removeEntity destroy entityId
       (if beforeRemove actions then called (BeforeRemove entityId) p else p)"

definition Plugin_rebase ::
  "(ID \<Rightarrow> 'p) \<Rightarrow> (ID \<Rightarrow> 'p EntityCollectionPlugin \<Rightarrow> 'p EntityCollectionPlugin) \<Rightarrow> ID list
     \<Rightarrow> ID list option \<Rightarrow> RebaseActions \<Rightarrow> 'p EntityCollectionPlugin \<Rightarrow> 'p EntityCollectionPlugin" where
  "Plugin_rebase inst destroy qids changed actions p =
     (if toBoolean changed then
        (case changed of
           None \<Rightarrow> p
         | Some idList \<Rightarrow>
             (case entityIds p of
                None \<Rightarrow>
                  Map_forEach
                    (\<lambda>entityId q. if entityId \<notin> set idList
                                   then rebase_remove destroy actions entityId q else q)
                    (fold (\<lambda>entityId q. if Plugin_hasEntity q entityId = False
                                         then rebase_add inst actions entityId q else q)
                          idList p)
              | Some given \<Rightarrow>
                  fold (\<lambda>entityId q.
                          if entityId \<in> set idList \<and> Plugin_hasEntity q entityId = False
                          then rebase_add inst actions entityId q
                          else Map_forEach
                                 (\<lambda>entityId' r.
                                    if entityId' \<notin> set idList \<and> Plugin_hasEntity r entityId' = True
                                    then rebase_remove destroy actions entityId' r else r)
                                 q)
                       (coerceArray given) p))
      else
        fold (\<lambda>k q. if \<not> Plugin_hasEntity q k
                     then Plugin_createEntity k (inst k) (called (Instantiate k) q) else q)
             (Plugin_getIds qids p) p)"

definition Plugin_forEachId ::
  "ID list \<Rightarrow> IDS option \<Rightarrow> (ID \<Rightarrow> 'p EntityCollectionPlugin \<Rightarrow> 'p EntityCollectionPlugin)
     \<Rightarrow> 'p EntityCollectionPlugin \<Rightarrow> 'p EntityCollectionPlugin" where
  "Plugin_forEachId qids given cb p =
     fold (\<lambda>k q. if Plugin_hasEntity q k then cb k q else q) (Plugin_resolvedIds qids given p) p"

subsection \<open>\<open>EntityStateHistoryPlugin\<close>\<close>

text \<open>
  Modelled from the spec: the satellite \<open>StateHistoryPlugin\<close> (stateHistoryPlugin.ts is
  not among the sources). Section 4.4: its states are \<open>past\<close>, \<open>present\<close> and \<open>future\<close>;
  "hasPast = past non-empty", "hasFuture = future non-empty".
\<close>

record 'e StateHistoryPlugin =
  past :: "'e list"
  present :: "'e option"
  future :: "'e list"

definition hasPast :: "'e StateHistoryPlugin \<Rightarrow> bool" where
  "hasPast h = (past h \<noteq> [])"

definition hasFuture :: "'e StateHistoryPlugin \<Rightarrow> bool" where
  "hasFuture h = (future h \<noteq> [])"

text \<open>\<open>destroy(ids, clearHistory)\<close>: \<open>forEachId(ids, e => e.destroy(clearHistory))\<close>.\<close>

definition ESH_destroy ::
  "ID list \<Rightarrow> IDS option \<Rightarrow> bool \<Rightarrow> 'p EntityCollectionPlugin \<Rightarrow> 'p EntityCollectionPlugin" where
  "ESH_destroy qids given clearHistory p =
     Plugin_forEachId qids given (\<lambda>k q. called (Destroy k clearHistory) q) p"

text \<open>
  \<open>activate(ids)\<close> is \<open>rebase(ids)\<close> with no callbacks; \<open>removeEntity\<close> reaches the
  plugin's \<open>destroy(id)\<close>, whose \<open>clearHistory\<close> defaults to false.
\<close>

definition ESH_activate ::
  "(ID \<Rightarrow> 'p) \<Rightarrow> ID list \<Rightarrow> ID list option \<Rightarrow> 'p EntityCollectionPlugin \<Rightarrow> 'p EntityCollectionPlugin" where
  "ESH_activate inst qids changed p =
     Plugin_rebase inst (\<lambda>k q. ESH_destroy qids (Some (One k)) False q) qids changed no_actions p"

text \<open>
  The constructor: the fields, then \<open>this.activate()\<close> (the default it gives
  \<open>params.maxAge\<close> is read by the satellites only). Its last statement subscribes
  \<open>ids => this.activate(ids)\<close> to the id list of the collection (skipping the current
  one): \<open>ESH_idsChanged\<close> is that subscriber, called with each new id list, which is
  then also what \<open>query.getValue().ids\<close> returns.
\<close>

definition ESH_constructor :: "(ID \<Rightarrow> 'p) \<Rightarrow> ID list \<Rightarrow> IDS option \<Rightarrow> 'p EntityCollectionPlugin" where
  "ESH_constructor inst qids given =
     ESH_activate inst qids None \<lparr>plugin_entities = [], entityIds = given, calls = []\<rparr>"

definition ESH_idsChanged ::
  "(ID \<Rightarrow> 'p) \<Rightarrow> ID list \<Rightarrow> 'p EntityCollectionPlugin \<Rightarrow> 'p EntityCollectionPlugin" where
  "ESH_idsChanged inst idList p = ESH_activate inst idList (Some idList) p"

text \<open>
  \<open>hasPast(id)\<close> and \<open>hasFuture(id)\<close>: a function that ends without \<open>return\<close> yields
  \<open>undefined\<close>, here \<open>Inr None\<close>; reading a property of \<open>undefined\<close> is a TypeError.
\<close>

definition ESH_hasPast ::
  "'e StateHistoryPlugin EntityCollectionPlugin \<Rightarrow> ID \<Rightarrow> exn + bool option" where
  "ESH_hasPast p k =
     (if Plugin_hasEntity p k
      then (case Plugin_getEntity p k of None \<Rightarrow> Inl TypeError | Some e \<Rightarrow> Inr (Some (hasPast e)))
      else Inr None)"

definition ESH_hasFuture ::
  "'e StateHistoryPlugin EntityCollectionPlugin \<Rightarrow> ID \<Rightarrow> exn + bool option" where
  "ESH_hasFuture p k =
     (if Plugin_hasEntity p k
      then (case Plugin_getEntity p k of None \<Rightarrow> Inl TypeError | Some e \<Rightarrow> Inr (Some (hasFuture e)))
      else Inr None)"

section \<open>Predicates and examples used by the theorems\<close>

text \<open>
  A store inside an open batch: a transaction is in progress, the store's subject exists,
  the batch subject is live, and the store is subscribed to it exactly when its flag
  \<open>inTransaction\<close> is set.
\<close>

definition batch_open :: "nat \<Rightarrow> ('S, 'z) World \<Rightarrow> bool" where
  "batch_open sid w =
     (0 < activeTransactions w \<and> store (stores w sid) \<noteq> None \<and>
      (case batchTransaction w of
         None \<Rightarrow> False
       | Some subj \<Rightarrow>
           \<not> isStopped subj \<and>
           count_list (observers subj) sid = (if inTransaction (stores w sid) then 1 else 0)))"

text \<open>
  What running actions inside an open batch does to one store: nothing is emitted, the
  state functions \<open>fs\<close> are applied in order, the store is subscribed once if there was
  any, and the depth is back where it was.
\<close>

definition effect ::
  "nat \<Rightarrow> ('S \<Rightarrow> 'S) list \<Rightarrow> bool \<Rightarrow> ('S, 'z) World \<Rightarrow> ('S, 'z) World \<times> (exn + unit) \<Rightarrow> bool" where
  "effect sid fs thr w p =
     (batch_open sid (fst p) \<and>
      activeTransactions (fst p) = activeTransactions w \<and>
      store (stores (fst p) sid) = store (stores w sid) \<and>
      storeValue (stores (fst p) sid) = apply_all fs (storeValue (stores w sid)) \<and>
      inTransaction (stores (fst p) sid) = (inTransaction (stores w sid) \<or> fs \<noteq> []) \<and>
      isl (snd p) = thr)"

definition keeps :: "bool \<Rightarrow> ('S, 'z) World \<Rightarrow> ('S, 'z) World \<times> (exn + unit) \<Rightarrow> bool" where
  "keeps thr w p =
     (activeTransactions (fst p) = activeTransactions w \<and>
      (batchTransaction w \<noteq> None \<longrightarrow> batchTransaction (fst p) \<noteq> None) \<and>
      isl (snd p) = thr)"

text \<open>A world with no transaction in progress, whose stores hold the number 0.\<close>

definition idle_world :: "(nat, unit) World" where
  "idle_world =
     \<lparr>activeTransactions = 0, batchTransaction = None, transactionInProcess = False,
      transactionFinished = 0,
      stores = (\<lambda>_. \<lparr>storeValue = 0, inTransaction = False, store = Some [0], cache_active = False\<rparr>)\<rparr>"

definition nested_twice :: "nat action list" where
  "nested_twice = [SetState 0 Suc, ApplyTransaction [SetState 0 (\<lambda>n. n * 5)]]"

definition inner_throws :: "nat action list" where
  "inner_throws =
     [SetState 0 Suc, ApplyTransaction [SetState 0 (\<lambda>n. n * 5), Throw (Thrown ''boom'')],
      SetState 0 Suc]"

text \<open>
  A world whose stores are entity stores holding one article, as after
  \<open>set([{id: 1, title: '1'}])\<close>.
\<close>

definition articles_state :: EntityState where
  "articles_state =
     \<lparr>ids = [VNum 1],
      entities = [VNum 1 \<mapsto> [''id'' \<mapsto> VNum 1, ''title'' \<mapsto> VStr ''1'']],
      active = ActiveId (VNum 1), loading = Some True, error = VNull\<rparr>"

definition articles_world :: EWorld where
  "articles_world =
     \<lparr>activeTransactions = 0, batchTransaction = None, transactionInProcess = False,
      transactionFinished = 0,
      stores = (\<lambda>_. \<lparr>storeValue = articles_state, inTransaction = False,
                       store = Some [articles_state], cache_active = True,
                       updatedEntityIds = [[]], entityActions = []\<rparr>)\<rparr>"

definition no_upsert_options :: UpsertOptions where
  "no_upsert_options = \<lparr>baseClass = None\<rparr>"

definition no_upsertMany_options :: UpsertManyOptions where
  "no_upsertMany_options = \<lparr>baseClass = None, many_loading = None\<rparr>"

text \<open>The ids that have a satellite, and a factory of satellites for the examples.\<close>

definition tracked :: "'p EntityCollectionPlugin \<Rightarrow> ID set" where
  "tracked p = set (map fst (plugin_entities p))"

definition new_history :: "ID \<Rightarrow> entity StateHistoryPlugin" where
  "new_history k = \<lparr>past = [], present = None, future = []\<rparr>"

definition used_history :: "ID \<Rightarrow> entity StateHistoryPlugin" where
  "used_history k = \<lparr>past = [[''id'' \<mapsto> k]], present = Some [''id'' \<mapsto> k, ''title'' \<mapsto> VStr ''t''], future = []\<rparr>"

section \<open>Transactions: what a store emits\<close>

lemma upd_store_simps:
  "stores (upd_store sid f w) = (stores w)(sid := f (stores w sid))"
  "activeTransactions (upd_store sid f w) = activeTransactions w"
  "batchTransaction (upd_store sid f w) = batchTransaction w"
  "transactionInProcess (upd_store sid f w) = transactionInProcess w"
  "transactionFinished (upd_store sid f w) = transactionFinished w"
  by (simp_all add: upd_store_def)

lemma commit_subscriber_frame:
  "activeTransactions (commit_subscriber s w) = activeTransactions w"
  "batchTransaction (commit_subscriber s w) = batchTransaction w"
  "storeValue (stores (commit_subscriber s w) sid) = storeValue (stores w sid)"
  "cache_active (stores (commit_subscriber s w) sid) = cache_active (stores w sid)"
  "s \<noteq> sid \<Longrightarrow> stores (commit_subscriber s w) sid = stores w sid"
  by (simp_all add: commit_subscriber_def Store_dispatch_def upd_store_simps Let_def)

lemma commit_subscriber_self:
  "store (stores (commit_subscriber sid w) sid) =
     map_option (\<lambda>l. l @ [storeValue (stores w sid)]) (store (stores w sid))"
  "inTransaction (stores (commit_subscriber sid w) sid) = False"
  by (simp_all add: commit_subscriber_def Store_dispatch_def upd_store_simps Let_def)

lemma fold_commit_subscriber_frame:
  "activeTransactions (fold commit_subscriber obs w) = activeTransactions w"
  "batchTransaction (fold commit_subscriber obs w) = batchTransaction w"
  "storeValue (stores (fold commit_subscriber obs w) sid) = storeValue (stores w sid)"
  "cache_active (stores (fold commit_subscriber obs w) sid) = cache_active (stores w sid)"
  by (induction obs arbitrary: w; simp add: commit_subscriber_frame)+

lemma fold_commit_subscriber_store:
  "store (stores (fold commit_subscriber obs w) sid) =
     map_option (\<lambda>l. l @ replicate (count_list obs sid) (storeValue (stores w sid)))
       (store (stores w sid))"
proof (induction obs arbitrary: w)
  case Nil
  then show ?case by (simp add: option.map_ident)
next
  case (Cons s obs)
  show ?case
  proof (cases "s = sid")
    case True
    then show ?thesis
      by (simp add: Cons.IH commit_subscriber_self commit_subscriber_frame option.map_comp
          comp_def replicate_append_same)
  next
    case False
    then show ?thesis
      by (simp add: Cons.IH commit_subscriber_frame)
  qed
qed

lemma fold_commit_subscriber_inTransaction:
  "inTransaction (stores (fold commit_subscriber obs w) sid) =
     (sid \<notin> set obs \<and> inTransaction (stores w sid))"
proof (induction obs arbitrary: w)
  case Nil
  then show ?case by simp
next
  case (Cons s obs)
  show ?case
    by (cases "s = sid") (auto simp add: Cons.IH commit_subscriber_self commit_subscriber_frame)
qed

lemma setState_effect:
  assumes "batch_open sid w"
  shows "effect sid (if sid' = sid then [f] else []) False w (Store_setState sid' f w, Inr ())"
  using assms
  by (auto simp add: effect_def batch_open_def Store_setState_def Store_handleTransaction_def
      Store_watchTransaction_def isTransactionInProcess_def upd_store_simps apply_all_def Let_def
      commit_subscriber_def Store_dispatch_def
      split: option.splits if_splits)

lemma startBatch_open:
  assumes "batch_open sid w"
  shows "batch_open sid (startBatch w)"
    and "activeTransactions (startBatch w) = activeTransactions w + 1"
    and "stores (startBatch w) = stores w"
  using assms
  by (auto simp add: batch_open_def startBatch_def isTransactionInProcess_def Let_def split: option.splits)

lemma endBatch_inner:
  assumes "activeTransactions w \<noteq> 1"
  shows "endBatch w = (w\<lparr>activeTransactions := activeTransactions w - 1\<rparr>, Inr ())"
  using assms by (simp add: endBatch_def Let_def)

lemma applyTransaction_effect:
  assumes "batch_open sid w"
    and "\<And>w1. batch_open sid w1 \<Longrightarrow> effect sid fs thr w1 (act w1)"
  shows "effect sid fs thr w (applyTransaction act w)"
proof -
  let ?w1 = "startBatch w"
  obtain w2 r where act: "act ?w1 = (w2, r)" by (cases "act ?w1")
  have e: "effect sid fs thr ?w1 (w2, r)"
    using assms(2)[OF startBatch_open(1)[OF assms(1)]] act by simp
  have d: "activeTransactions w2 = activeTransactions w + 1"
    using e startBatch_open(2)[OF assms(1)] by (simp add: effect_def)
  have "activeTransactions w2 \<noteq> 1" using d assms(1) by (simp add: batch_open_def)
  then have eb: "endBatch w2 = (w2\<lparr>activeTransactions := activeTransactions w2 - 1\<rparr>, Inr ())"
    by (rule endBatch_inner)
  have res: "applyTransaction act w = (w2\<lparr>activeTransactions := activeTransactions w2 - 1\<rparr>, r)"
    by (simp add: applyTransaction_def Let_def act eb)
  show ?thesis
    using e d assms(1) startBatch_open(3)[OF assms(1)]
    by (auto simp add: res effect_def batch_open_def split: option.splits)
qed

lemma effect_seq:
  assumes "effect sid fs thr w (w1, r)"
    and "\<not> thr \<Longrightarrow> effect sid gs thr' w1 p"
  shows "effect sid (fs @ (if thr then [] else gs)) (thr \<or> thr') w
           (case (w1, r) of (w1, Inl e) \<Rightarrow> (w1, Inl e) | (w1, Inr _) \<Rightarrow> p)"
proof (cases r)
  case (Inl e)
  then show ?thesis using assms(1) by (auto simp add: effect_def)
next
  case (Inr u)
  then have "\<not> thr" using assms(1) by (auto simp add: effect_def)
  then show ?thesis using assms Inr by (auto simp add: effect_def apply_all_def)
qed

lemma run_effect:
  "batch_open sid w \<Longrightarrow> effect sid (mutations sid a) (throws a) w (run a w)"
  "batch_open sid w \<Longrightarrow> effect sid (mutations_all sid as) (throws_all as) w (run_all as w)"
proof (induction a w and as w rule: run_run_all.induct)
  case (1 sid' f w)
  then show ?case using setState_effect[of sid w sid' f] by simp
next
  case (2 e w)
  then show ?case by (simp add: effect_def apply_all_def)
next
  case (3 body w)
  then show ?case by (simp add: applyTransaction_effect)
next
  case (4 w)
  then show ?case by (simp add: effect_def apply_all_def)
next
  case (5 a as w)
  obtain w1 r where ra: "run a w = (w1, r)" by (cases "run a w")
  have e1: "effect sid (mutations sid a) (throws a) w (w1, r)"
    using 5 ra by simp
  have e2: "\<not> throws a \<Longrightarrow> effect sid (mutations_all sid as) (throws_all as) w1 (run_all as w1)"
  proof -
    assume nt: "\<not> throws a"
    then obtain u where "r = Inr u" using e1 by (cases r) (auto simp add: effect_def)
    moreover have "batch_open sid w1" using e1 by (simp add: effect_def)
    ultimately show ?thesis using 5(2)[of w1 r u] ra by simp
  qed
  show ?case using effect_seq[OF e1 e2] by (simp add: ra)
qed

text \<open>In any world, a run keeps the depth and never loses the batch subject.\<close>

lemma setState_keeps: "keeps False w (Store_setState sid f w, Inr ())"
  by (auto simp add: keeps_def Store_setState_def Store_handleTransaction_def
      Store_watchTransaction_def upd_store_simps Let_def commit_subscriber_frame
      Store_dispatch_def split: option.splits)

lemma startBatch_depth:
  "activeTransactions (startBatch w) = activeTransactions w + 1"
  "activeTransactions w \<le> 0 \<Longrightarrow> batchTransaction (startBatch w) \<noteq> None"
  "batchTransaction w \<noteq> None \<Longrightarrow> batchTransaction (startBatch w) \<noteq> None"
  by (simp_all add: startBatch_def isTransactionInProcess_def Let_def)

lemma endBatch_keeps:
  assumes "activeTransactions w = 1 \<longrightarrow> batchTransaction w \<noteq> None"
  shows "snd (endBatch w) = Inr ()"
    and "activeTransactions (fst (endBatch w)) = activeTransactions w - 1"
    and "batchTransaction w \<noteq> None \<Longrightarrow> batchTransaction (fst (endBatch w)) \<noteq> None"
  using assms
  by (auto simp add: endBatch_def Let_def Subject_next_def fold_commit_subscriber_frame
      split: option.splits)

lemma applyTransaction_keeps:
  assumes "\<And>w1. keeps thr w1 (act w1)"
  shows "keeps thr w (applyTransaction act w)"
proof -
  let ?w1 = "startBatch w"
  obtain w2 r where act: "act ?w1 = (w2, r)" by (cases "act ?w1")
  have k: "keeps thr ?w1 (w2, r)" using assms[of ?w1] act by simp
  have d: "activeTransactions w2 = activeTransactions w + 1"
    using k by (simp add: keeps_def startBatch_depth)
  have b: "activeTransactions w2 = 1 \<longrightarrow> batchTransaction w2 \<noteq> None"
    using k d startBatch_depth(2)[of w] by (auto simp add: keeps_def)
  have b': "batchTransaction w \<noteq> None \<Longrightarrow> batchTransaction w2 \<noteq> None"
    using k startBatch_depth(3)[of w] by (auto simp add: keeps_def)
  obtain w3 r' where eb: "endBatch w2 = (w3, r')" by (cases "endBatch w2")
  have "r' = Inr ()" using endBatch_keeps(1)[OF b] eb by simp
  moreover have "activeTransactions w3 = activeTransactions w"
    using endBatch_keeps(2)[OF b] eb d by simp
  moreover have "batchTransaction w \<noteq> None \<Longrightarrow> batchTransaction w3 \<noteq> None"
    using endBatch_keeps(3)[OF b] b' eb by simp
  moreover have "isl r = thr" using k by (simp add: keeps_def)
  ultimately show ?thesis
    by (simp add: applyTransaction_def Let_def act eb keeps_def)
qed

lemma run_keeps:
  "keeps (throws a) w (run a w)"
  "keeps (throws_all as) w (run_all as w)"
proof (induction a w and as w rule: run_run_all.induct)
  case (1 sid f w)
  then show ?case by (simp add: setState_keeps)
next
  case (2 e w)
  then show ?case by (simp add: keeps_def)
next
  case (3 body w)
  then show ?case by (simp add: applyTransaction_keeps)
next
  case (4 w)
  then show ?case by (simp add: keeps_def)
next
  case (5 a as w)
  obtain w1 r where ra: "run a w = (w1, r)" by (cases "run a w")
  show ?case
  proof (cases r)
    case (Inl e)
    then show ?thesis using 5(1) ra by (auto simp add: keeps_def)
  next
    case (Inr u)
    then have "keeps (throws_all as) w1 (run_all as w1)" using 5(2) ra by simp
    then show ?thesis using 5(1) ra Inr by (auto simp add: keeps_def)
  qed
qed

text \<open>The two ends of the outermost transaction.\<close>

lemma endBatch_outermost:
  assumes "activeTransactions w = 1"
    and "batch_open sid w"
    and "store (stores w sid) = Some emitted"
  shows "snd (endBatch w) = Inr ()"
    and "activeTransactions (fst (endBatch w)) = 0"
    and "store (stores (fst (endBatch w)) sid) =
           Some (emitted @ (if inTransaction (stores w sid) then [storeValue (stores w sid)] else []))"
    and "\<not> inTransaction (stores (fst (endBatch w)) sid)"
    and "storeValue (stores (fst (endBatch w)) sid) = storeValue (stores w sid)"
proof -
  obtain subj where b: "batchTransaction w = Some subj" and ns: "\<not> isStopped subj"
    and c: "count_list (observers subj) sid = (if inTransaction (stores w sid) then 1 else 0)"
    using assms(2) by (auto simp add: batch_open_def split: option.splits)
  have m: "inTransaction (stores w sid) \<Longrightarrow> sid \<in> set (observers subj)"
    using c count_list_0_iff[of "observers subj" sid] by auto
  show "snd (endBatch w) = Inr ()"
    using assms(1) b by (simp add: endBatch_def Let_def)
  show "activeTransactions (fst (endBatch w)) = 0"
    using assms(1) b ns
    by (simp add: endBatch_def Let_def Subject_next_def fold_commit_subscriber_frame)
  show "store (stores (fst (endBatch w)) sid) =
           Some (emitted @ (if inTransaction (stores w sid) then [storeValue (stores w sid)] else []))"
    using assms(1,3) b ns c
    by (simp add: endBatch_def Let_def Subject_next_def fold_commit_subscriber_store)
  show "\<not> inTransaction (stores (fst (endBatch w)) sid)"
    using assms(1) b ns m
    by (auto simp add: endBatch_def Let_def Subject_next_def fold_commit_subscriber_inTransaction)
  show "storeValue (stores (fst (endBatch w)) sid) = storeValue (stores w sid)"
    using assms(1) b ns
    by (simp add: endBatch_def Let_def Subject_next_def fold_commit_subscriber_frame)
qed

lemma startBatch_outermost:
  assumes "activeTransactions w = 0"
    and "store (stores w sid) = Some emitted"
    and "\<not> inTransaction (stores w sid)"
  shows "batch_open sid (startBatch w)"
    and "activeTransactions (startBatch w) = 1"
    and "stores (startBatch w) = stores w"
  using assms
  by (simp_all add: batch_open_def startBatch_def isTransactionInProcess_def Let_def)

lemma outermost_transaction:
  assumes "activeTransactions w = 0"
    and "store (stores w sid) = Some emitted"
    and "\<not> inTransaction (stores w sid)"
    and "run_all body (startBatch w) = (w2, r)"
  shows "applyTransaction (run_all body) w = (fst (endBatch w2), r)"
    and "store (stores w2 sid) = Some emitted"
    and "activeTransactions w2 = 1"
    and "activeTransactions (fst (endBatch w2)) = 0"
    and "storeValue (stores (fst (endBatch w2)) sid) =
           apply_all (mutations_all sid body) (storeValue (stores w sid))"
    and "store (stores (fst (endBatch w2)) sid) =
           Some (emitted @ (if mutations_all sid body = [] then []
                            else [apply_all (mutations_all sid body) (storeValue (stores w sid))]))"
    and "\<not> inTransaction (stores (fst (endBatch w2)) sid)"
proof -
  note sb = startBatch_outermost[OF assms(1,2,3)]
  have e: "effect sid (mutations_all sid body) (throws_all body) (startBatch w) (w2, r)"
    using run_effect(2)[OF sb(1), of body] assms(4) by simp
  have o: "batch_open sid w2" and d: "activeTransactions w2 = 1"
    and s: "store (stores w2 sid) = Some emitted"
    and v: "storeValue (stores w2 sid) = apply_all (mutations_all sid body) (storeValue (stores w sid))"
    and t: "inTransaction (stores w2 sid) = (mutations_all sid body \<noteq> [])"
    using e sb assms by (simp_all add: effect_def)
  note eb = endBatch_outermost[OF d o s]
  show "applyTransaction (run_all body) w = (fst (endBatch w2), r)"
    using eb(1) by (cases "endBatch w2") (simp add: applyTransaction_def Let_def assms(4))
  show "store (stores w2 sid) = Some emitted" by (rule s)
  show "activeTransactions w2 = 1" by (rule d)
  show "activeTransactions (fst (endBatch w2)) = 0" by (rule eb(2))
  show "storeValue (stores (fst (endBatch w2)) sid) =
           apply_all (mutations_all sid body) (storeValue (stores w sid))"
    using eb(5) v by simp
  show "store (stores (fst (endBatch w2)) sid) =
           Some (emitted @ (if mutations_all sid body = [] then []
                            else [apply_all (mutations_all sid body) (storeValue (stores w sid))]))"
    using eb(3) t v by simp
  show "\<not> inTransaction (stores (fst (endBatch w2)) sid)" by (rule eb(4))
qed

lemmas world_eval =
  Store_setState_def Store_handleTransaction_def Store_watchTransaction_def
  Store_dispatch_def commit_subscriber_def upd_store_def isTransactionInProcess_def
  startBatch_def endBatch_def applyTransaction_def Subject_next_def Subject_complete_def Let_def

text \<open>
  C1. A store that is written two or more times inside one outermost transaction, nested
  transactions and an exception that ends the body included, emits exactly one state to
  its subscribers: the state after the last write, which is the writes applied in order
  to the state before the transaction. While the body runs, up to the \<open>endBatch\<close> of the
  outermost transaction, it emits nothing and the depth is still 1; after it the depth
  is 0.
\<close>

theorem transaction_emits_once:
  assumes "activeTransactions w = 0"
    and "store (stores w sid) = Some emitted"
    and "\<not> inTransaction (stores w sid)"
    and "2 \<le> length (mutations_all sid body)"
  shows "store (stores (fst (run (ApplyTransaction body) w)) sid) =
           Some (emitted @ [apply_all (mutations_all sid body) (storeValue (stores w sid))])
         \<and> storeValue (stores (fst (run (ApplyTransaction body) w)) sid) =
           apply_all (mutations_all sid body) (storeValue (stores w sid))
         \<and> activeTransactions (fst (run (ApplyTransaction body) w)) = 0
         \<and> store (stores (fst (run_all body (startBatch w))) sid) = Some emitted
         \<and> activeTransactions (fst (run_all body (startBatch w))) = 1"
proof -
  obtain w2 r where b: "run_all body (startBatch w) = (w2, r)"
    by (cases "run_all body (startBatch w)")
  note o = outermost_transaction[OF assms(1,2,3) b]
  have ne: "mutations_all sid body \<noteq> []" using assms(4) by auto
  have "run (ApplyTransaction body) w = (fst (endBatch w2), r)" using o(1) by simp
  then show ?thesis using o(2-6) ne b by simp
qed

theorem transaction_emits_once_witness:
  "activeTransactions idle_world = 0
   \<and> store (stores idle_world 0) = Some [0]
   \<and> \<not> inTransaction (stores idle_world 0)
   \<and> 2 \<le> length (mutations_all 0 nested_twice)
   \<and> store (stores (fst (run (ApplyTransaction nested_twice) idle_world)) 0) = Some [0, 5]
   \<and> store (stores (fst (run_all nested_twice (startBatch idle_world))) 0) = Some [0]"
proof -
  have h1: "activeTransactions idle_world = 0" by (simp add: idle_world_def)
  have h2: "store (stores idle_world 0) = Some [0]" by (simp add: idle_world_def)
  have h3: "\<not> inTransaction (stores idle_world 0)" by (simp add: idle_world_def)
  have h4: "2 \<le> length (mutations_all 0 nested_twice)" by (simp add: nested_twice_def)
  have v: "apply_all (mutations_all 0 nested_twice) (storeValue (stores idle_world 0)) = 5"
    by (simp add: nested_twice_def apply_all_def idle_world_def)
  show ?thesis
    using transaction_emits_once[OF h1 h2 h3 h4] h1 h2 h3 h4 v by simp
qed

text \<open>For any action at all, \<open>endBatch\<close> runs on the world the action left.\<close>

lemma applyTransaction_finally:
  assumes "action (startBatch w) = (w2, r)"
  shows "fst (applyTransaction action w) = fst (endBatch w2)"
    and "snd (endBatch w2) = Inr () \<Longrightarrow> snd (applyTransaction action w) = r"
  using assms by (cases "endBatch w2"; simp add: applyTransaction_def Let_def)+

text \<open>
  C4. When the action of \<open>applyTransaction\<close> throws, \<open>endBatch\<close> still runs on the world
  the action left, the exception is the result, and the depth is back at its value
  before the call (one less than after the action). If the call was the outermost
  transaction, a store that was idle before it is released: its flag is cleared and,
  if it was written, it has emitted its last state, once.
\<close>

theorem applyTransaction_cleanup:
  assumes "run_all body (startBatch w) = (w2, Inl e)"
  shows "applyTransaction (run_all body) w = (fst (endBatch w2), Inl e)
         \<and> activeTransactions (fst (endBatch w2)) = activeTransactions w2 - 1
         \<and> activeTransactions (fst (endBatch w2)) = activeTransactions w
         \<and> (activeTransactions w = 0 \<and> store (stores w sid) = Some emitted
                \<and> \<not> inTransaction (stores w sid)
            \<longrightarrow> \<not> inTransaction (stores (fst (endBatch w2)) sid)
                 \<and> store (stores (fst (endBatch w2)) sid) =
                     Some (emitted @ (if mutations_all sid body = [] then []
                        else [apply_all (mutations_all sid body) (storeValue (stores w sid))])))"
proof -
  have k: "keeps (throws_all body) (startBatch w) (w2, Inl e)"
    using run_keeps(2)[of body "startBatch w"] assms by simp
  have d: "activeTransactions w2 = activeTransactions w + 1"
    using k by (simp add: keeps_def startBatch_depth)
  have b: "activeTransactions w2 = 1 \<longrightarrow> batchTransaction w2 \<noteq> None"
    using k d startBatch_depth(2)[of w] by (auto simp add: keeps_def)
  note eb = endBatch_keeps(1,2)[OF b]
  have 1: "applyTransaction (run_all body) w = (fst (endBatch w2), Inl e)"
    using eb(1) by (cases "endBatch w2") (simp add: applyTransaction_def Let_def assms)
  have 2: "activeTransactions (fst (endBatch w2)) = activeTransactions w2 - 1" by (rule eb(2))
  have 3: "activeTransactions (fst (endBatch w2)) = activeTransactions w" using eb(2) d by simp
  show ?thesis
  proof (cases "activeTransactions w = 0 \<and> store (stores w sid) = Some emitted
                \<and> \<not> inTransaction (stores w sid)")
    case True
    then have a: "activeTransactions w = 0" "store (stores w sid) = Some emitted"
      "\<not> inTransaction (stores w sid)" by simp_all
    note o = outermost_transaction[OF a assms]
    show ?thesis using 1 2 3 o(6,7) True by simp
  next
    case False
    then show ?thesis using 1 2 3 by auto
  qed
qed

theorem applyTransaction_cleanup_witness:
  "run_all inner_throws (startBatch idle_world) =
     (fst (run_all inner_throws (startBatch idle_world)), Inl (Thrown ''boom''))
   \<and> snd (applyTransaction (run_all inner_throws) idle_world) = Inl (Thrown ''boom'')
   \<and> activeTransactions (fst (applyTransaction (run_all inner_throws) idle_world)) = 0
   \<and> \<not> inTransaction (stores (fst (applyTransaction (run_all inner_throws) idle_world)) 0)
   \<and> store (stores (fst (applyTransaction (run_all inner_throws) idle_world)) 0) = Some [0, 5]"
proof -
  have "snd (run_all inner_throws (startBatch idle_world)) = Inl (Thrown ''boom'')"
    by (simp add: inner_throws_def idle_world_def world_eval)
  then have h: "run_all inner_throws (startBatch idle_world) =
     (fst (run_all inner_throws (startBatch idle_world)), Inl (Thrown ''boom''))"
    by (simp add: prod_eq_iff)
  have a: "activeTransactions idle_world = 0 \<and> store (stores idle_world 0) = Some [0]
           \<and> \<not> inTransaction (stores idle_world 0)"
    by (simp add: idle_world_def)
  have m: "mutations_all 0 inner_throws \<noteq> []"
    "apply_all (mutations_all 0 inner_throws) (storeValue (stores idle_world 0)) = 5"
    by (simp_all add: inner_throws_def apply_all_def idle_world_def)
  show ?thesis
    using applyTransaction_cleanup[OF h, of 0 "[0]"] h a m by simp
qed

section \<open>The entity collection: what the operations store\<close>

lemma setState_storeValue:
  "storeValue (stores (Store_setState sid f w) sid) = f (storeValue (stores w sid))"
  by (simp add: Store_setState_def Store_handleTransaction_def Store_watchTransaction_def
      Store_dispatch_def commit_subscriber_def upd_store_def Let_def split: option.splits)

lemma setState_cache:
  "cache_active (stores (Store_setState sid f w) s) = cache_active (stores w s)"
  by (simp add: Store_setState_def Store_handleTransaction_def Store_watchTransaction_def
      Store_dispatch_def commit_subscriber_def upd_store_def Let_def split: option.splits)

lemma entityActions_next_frame:
  "storeValue (stores (entityActions_next sid a w) s) = storeValue (stores w s)"
  "cache_active (stores (entityActions_next sid a w) s) = cache_active (stores w s)"
  by (simp_all add: entityActions_next_def upd_store_def)

lemma updatedEntityIds_next_frame:
  "storeValue (stores (updatedEntityIds_next sid a w) s) = storeValue (stores w s)"
  "cache_active (stores (updatedEntityIds_next sid a w) s) = cache_active (stores w s)"
  by (simp_all add: updatedEntityIds_next_def upd_store_def)

lemma setHasCache_frame:
  "storeValue (stores (Store_setHasCache sid b w) s) = storeValue (stores w s)"
  "cache_active (stores (Store_setHasCache sid b w) sid) = b"
  by (simp_all add: Store_setHasCache_def upd_store_def)

lemma startBatch_stores: "stores (startBatch w) = stores w"
  by (simp add: startBatch_def Let_def)

lemma endBatch_storeValue:
  "storeValue (stores (fst (endBatch w)) s) = storeValue (stores w s)"
  by (simp add: endBatch_def Let_def Subject_next_def fold_commit_subscriber_frame
      split: option.splits)

lemma applyTransaction_storeValue:
  "storeValue (stores (fst (applyTransaction act w)) s) =
     storeValue (stores (fst (act (startBatch w))) s)"
  by (simp add: applyTransaction_def Let_def endBatch_storeValue split: prod.splits)
    (metis endBatch_storeValue fst_conv)

lemma add_storeValue:
  "storeValue (stores (EntityStore_add idKey sid es opts w) sid) =
     (let options = (case opts of None \<Rightarrow> default_add_options | Some given \<Rightarrow> given);
          state = storeValue (stores w sid)
      in if coerceArray es = [] then state
         else (case addEntities state akitaPreAddEntity (coerceArray es) idKey options of
                 None \<Rightarrow> state
               | Some (newState, newIds) \<Rightarrow> newState\<lparr>loading := options_loading options\<rparr>))"
  by (simp add: EntityStore_add_def Let_def isEmpty_def entityActions_next_frame
      setState_storeValue split: option.splits)

lemma update_storeValue:
  "storeValue (stores (EntityStore_update idKey sid (Ids x) newState w) sid) =
     (let state = storeValue (stores w sid)
      in if coerceArray x = [] then state
         else updateEntities idKey (coerceArray x) akitaPreUpdateEntity state newState)"
  by (simp add: EntityStore_update_def Let_def isEmpty_def entityActions_next_frame
      updatedEntityIds_next_frame setState_storeValue)

lemma upsert_storeValue:
  "storeValue (stores (fst (EntityStore_upsert idKey sid x newState options w)) sid) =
     storeValue (stores (fst (upsert_body idKey sid x newState options (startBatch w))) sid)"
  by (simp add: EntityStore_upsert_def applyTransaction_storeValue)

lemma upsert_present:
  assumes "entities (storeValue (stores w sid)) X = Some e"
  shows "storeValue (stores (fst (EntityStore_upsert idKey sid (One X) (Patch P) options w)) sid) =
           (storeValue (stores w sid))\<lparr>entities := (entities (storeValue (stores w sid)))(X \<mapsto> e ++ P)\<rparr>"
  using assms
  by (simp add: upsert_storeValue upsert_body_def Let_def startBatch_stores coerceArray_def
      hasEntity_def add_storeValue update_storeValue updateEntities_def akitaPreUpdateEntity_def)

lemma upsert_absent:
  assumes "entities (storeValue (stores w sid)) X = None"
    and "baseClass options = None"
  shows "storeValue (stores (fst (EntityStore_upsert idKey sid (One X) (Patch P) options w)) sid) =
           (storeValue (stores w sid))
             \<lparr>entities := (entities (storeValue (stores w sid)))(X \<mapsto> P(idKey \<mapsto> X)),
              ids := ids (storeValue (stores w sid)) @ [X],
              loading := Some False\<rparr>"
  using assms
  by (simp add: upsert_storeValue upsert_body_def Let_def startBatch_stores coerceArray_def
      hasEntity_def add_storeValue update_storeValue addEntities_def akitaPreAddEntity_def
      entity_id_def default_add_options_def)

text \<open>
  C2. After \<open>upsert(X, P)\<close> with a patch object \<open>P\<close> and no \<open>baseClass\<close>, \<open>entities[X]\<close>
  exists. If \<open>X\<close> had an entity, the new one is the old one with the fields of \<open>P\<close>
  merged on top, and \<open>ids\<close> is unchanged; if it had none, the new one is \<open>P\<close> with the
  id field set to \<open>X\<close>, and \<open>X\<close> is appended to \<open>ids\<close>.
\<close>

theorem upsert_total:
  assumes "baseClass options = None"
  shows "entities (storeValue (stores (fst (EntityStore_upsert idKey sid (One X) (Patch P) options w)) sid)) X \<noteq> None
       \<and> (\<forall>e. entities (storeValue (stores w sid)) X = Some e \<longrightarrow>
            entities (storeValue (stores (fst (EntityStore_upsert idKey sid (One X) (Patch P) options w)) sid)) X
              = Some (e ++ P)
            \<and> ids (storeValue (stores (fst (EntityStore_upsert idKey sid (One X) (Patch P) options w)) sid))
              = ids (storeValue (stores w sid)))
       \<and> (entities (storeValue (stores w sid)) X = None \<longrightarrow>
            entities (storeValue (stores (fst (EntityStore_upsert idKey sid (One X) (Patch P) options w)) sid)) X
              = Some (P(idKey \<mapsto> X))
            \<and> ids (storeValue (stores (fst (EntityStore_upsert idKey sid (One X) (Patch P) options w)) sid))
              = ids (storeValue (stores w sid)) @ [X])"
proof (cases "entities (storeValue (stores w sid)) X")
  case None
  show ?thesis using None by (simp add: upsert_absent[OF None assms])
next
  case (Some e)
  show ?thesis using Some by (simp add: upsert_present[OF Some])
qed

theorem upsert_total_witness:
  "baseClass no_upsert_options = None
   \<and> entities (storeValue (stores (fst (EntityStore_upsert ''id'' 0 (One (VNum 1))
         (Patch [''title'' \<mapsto> VStr ''new'']) no_upsert_options articles_world)) 0)) (VNum 1)
       = Some [''id'' \<mapsto> VNum 1, ''title'' \<mapsto> VStr ''new'']
   \<and> ids (storeValue (stores (fst (EntityStore_upsert ''id'' 0 (One (VNum 1))
         (Patch [''title'' \<mapsto> VStr ''new'']) no_upsert_options articles_world)) 0))
       = [VNum 1]
   \<and> entities (storeValue (stores (fst (EntityStore_upsert ''id'' 0 (One (VNum 2))
         (Patch [''title'' \<mapsto> VStr ''t'']) no_upsert_options articles_world)) 0)) (VNum 2)
       = Some [''title'' \<mapsto> VStr ''t'', ''id'' \<mapsto> VNum 2]
   \<and> ids (storeValue (stores (fst (EntityStore_upsert ''id'' 0 (One (VNum 2))
         (Patch [''title'' \<mapsto> VStr ''t'']) no_upsert_options articles_world)) 0))
       = [VNum 1, VNum 2]"
proof -
  have b: "baseClass no_upsert_options = None" by (simp add: no_upsert_options_def)
  have s: "storeValue (stores articles_world 0) = articles_state"
    by (simp add: articles_world_def)
  have e1: "entities articles_state (VNum 1) = Some [''id'' \<mapsto> VNum 1, ''title'' \<mapsto> VStr ''1'']"
    and e2: "entities articles_state (VNum 2) = None"
    and i: "ids articles_state = [VNum 1]"
    by (simp_all add: articles_state_def)
  have m: "[''id'' \<mapsto> VNum 1, ''title'' \<mapsto> VStr ''1''] ++ [''title'' \<mapsto> VStr ''new'']
             = [''id'' \<mapsto> VNum 1, ''title'' \<mapsto> VStr ''new'']"
    by simp
  show ?thesis
    using upsert_total[OF b, of "''id''" 0 "VNum 1" "[''title'' \<mapsto> VStr ''new'']" articles_world]
      upsert_total[OF b, of "''id''" 0 "VNum 2" "[''title'' \<mapsto> VStr ''t'']" articles_world]
      b s e1 e2 i m
    by simp
qed

lemma upsertMany_storeValue:
  "storeValue (stores (EntityStore_upsertMany idKey sid es options w) sid) =
     (case fold (upsertMany_step idKey (entities (storeValue (stores w sid))) (baseClass options))
                es ([], [], Map.empty) of
        (addedIds, updatedIds, updatedEntities) \<Rightarrow>
          (storeValue (stores w sid))
            \<lparr>ids := (if addedIds \<noteq> [] then ids (storeValue (stores w sid)) @ addedIds
                     else ids (storeValue (stores w sid))),
             entities := entities (storeValue (stores w sid)) ++ updatedEntities,
             loading := Some (many_loading options = Some True)\<rparr>)"
  by (simp add: EntityStore_upsertMany_def Let_def entityActions_next_frame
      updatedEntityIds_next_frame setState_storeValue split: prod.splits)

text \<open>
  C9. An \<open>add\<close> that adds entities (\<open>addEntities\<close> returns a new state) stores
  \<open>options.loading\<close> in \<open>loading\<close>, which is \<open>false\<close> when the caller passes no options;
  \<open>upsertMany\<close> always stores \<open>!!options.loading\<close>.
\<close>

theorem add_upsertMany_set_loading:
  "(coerceArray es \<noteq> []
      \<and> addEntities (storeValue (stores w sid)) akitaPreAddEntity (coerceArray es) idKey
            (case opts of None \<Rightarrow> default_add_options | Some given \<Rightarrow> given) \<noteq> None
     \<longrightarrow> loading (storeValue (stores (EntityStore_add idKey sid es opts w) sid))
           = options_loading (case opts of None \<Rightarrow> default_add_options | Some given \<Rightarrow> given))
   \<and> options_loading default_add_options = Some False
   \<and> loading (storeValue (stores (EntityStore_upsertMany idKey sid rs options w) sid))
       = Some (many_loading options = Some True)"
  by (auto simp add: add_storeValue upsertMany_storeValue Let_def default_add_options_def
      split: prod.splits option.splits)

theorem add_upsertMany_set_loading_witness:
  "coerceArray (One [''id'' \<mapsto> VNum 7]) \<noteq> []
   \<and> addEntities (storeValue (stores articles_world 0)) akitaPreAddEntity
        (coerceArray (One [''id'' \<mapsto> VNum 7])) ''id'' default_add_options \<noteq> None
   \<and> loading (storeValue (stores articles_world 0)) = Some True
   \<and> loading (storeValue (stores
        (EntityStore_add ''id'' 0 (One [''id'' \<mapsto> VNum 7]) None articles_world) 0)) = Some False
   \<and> loading (storeValue (stores
        (EntityStore_upsertMany ''id'' 0 [[''id'' \<mapsto> VNum 7]] no_upsertMany_options articles_world) 0))
       = Some False"
proof -
  have h1: "coerceArray (One [''id'' \<mapsto> VNum 7]) \<noteq> []" by (simp add: coerceArray_def)
  have h2: "addEntities (storeValue (stores articles_world 0)) akitaPreAddEntity
        (coerceArray (One [''id'' \<mapsto> VNum 7])) ''id'' default_add_options \<noteq> None"
    by (simp add: coerceArray_def addEntities_def Let_def)
  have l: "loading (storeValue (stores articles_world 0)) = Some True"
    by (simp add: articles_world_def articles_state_def)
  have n: "many_loading no_upsertMany_options = None" by (simp add: no_upsertMany_options_def)
  show ?thesis
    using add_upsertMany_set_loading[of "One [''id'' \<mapsto> VNum 7]" articles_world 0 "''id''" None
        "[[''id'' \<mapsto> VNum 7]]" no_upsertMany_options] h1 h2 l n
    by (simp add: default_add_options_def)
qed

lemma remove_storeValue:
  "storeValue (stores (EntityStore_remove sid idsOrFn w) sid) =
     (let state = storeValue (stores w sid)
      in if ids state = [] then state
         else if isEmpty (remove_ids state idsOrFn) then state
         else removeEntities state (remove_ids state idsOrFn))"
  by (simp add: EntityStore_remove_def Let_def isEmpty_def entityActions_next_frame
      setHasCache_frame setState_storeValue)

lemma remove_cache:
  "cache_active (stores (EntityStore_remove sid idsOrFn w) sid) =
     (let state = storeValue (stores w sid)
      in if ids state = [] \<or> isEmpty (remove_ids state idsOrFn) then cache_active (stores w sid)
         else if remove_ids state idsOrFn = None then False
         else cache_active (stores w sid))"
  by (simp add: EntityStore_remove_def Let_def isEmpty_def entityActions_next_frame
      setHasCache_frame setState_cache)

lemma removeEntities_absent:
  assumes "\<forall>k\<in>set xs. k \<notin> set (ids state) \<and> entities state k = None"
  shows "ids (removeEntities state (Some xs)) = ids state"
    and "entities (removeEntities state (Some xs)) = entities state"
proof -
  have "filter (\<lambda>k. k \<notin> set xs) (ids state) = ids state"
    using assms by (auto simp add: filter_id_conv)
  then show "ids (removeEntities state (Some xs)) = ids state"
    by (simp add: removeEntities_def)
  show "entities (removeEntities state (Some xs)) = entities state"
    using assms by (auto simp add: removeEntities_def fun_eq_iff)
qed

text \<open>
  C5. \<open>remove\<close> does nothing at all (the world, and with it the state and everything a
  write would emit, is unchanged) when the ids it resolves are an empty list, and when
  the collection is already empty, whatever the target. Removing ids none of which is in
  \<open>ids\<close> or has an entity leaves \<open>ids\<close> and \<open>entities\<close> as they were.
\<close>

theorem remove_noop:
  "(remove_ids (storeValue (stores w sid)) idsOrFn = Some [] \<longrightarrow>
      EntityStore_remove sid idsOrFn w = w)
   \<and> (ids (storeValue (stores w sid)) = [] \<longrightarrow> EntityStore_remove sid idsOrFn w = w)
   \<and> ((\<forall>k\<in>set (coerceArray x).
          k \<notin> set (ids (storeValue (stores w sid))) \<and> entities (storeValue (stores w sid)) k = None)
        \<longrightarrow> ids (storeValue (stores (EntityStore_remove sid (Ids x) w) sid))
              = ids (storeValue (stores w sid))
            \<and> entities (storeValue (stores (EntityStore_remove sid (Ids x) w) sid))
              = entities (storeValue (stores w sid)))"
proof (intro conjI impI)
  assume "remove_ids (storeValue (stores w sid)) idsOrFn = Some []"
  then show "EntityStore_remove sid idsOrFn w = w"
    by (simp add: EntityStore_remove_def Let_def isEmpty_def)
next
  assume "ids (storeValue (stores w sid)) = []"
  then show "EntityStore_remove sid idsOrFn w = w"
    by (simp add: EntityStore_remove_def isEmpty_def)
next
  assume a: "\<forall>k\<in>set (coerceArray x).
          k \<notin> set (ids (storeValue (stores w sid))) \<and> entities (storeValue (stores w sid)) k = None"
  show "ids (storeValue (stores (EntityStore_remove sid (Ids x) w) sid))
              = ids (storeValue (stores w sid))"
    using removeEntities_absent(1)[OF a]
    by (simp add: remove_storeValue Let_def remove_ids_def)
  show "entities (storeValue (stores (EntityStore_remove sid (Ids x) w) sid))
              = entities (storeValue (stores w sid))"
    using removeEntities_absent(2)[OF a]
    by (simp add: remove_storeValue Let_def remove_ids_def)
qed

theorem remove_noop_witness:
  "remove_ids (storeValue (stores articles_world 0)) (Pred (\<lambda>e. False)) = Some []
   \<and> EntityStore_remove 0 (Pred (\<lambda>e. False)) articles_world = articles_world
   \<and> ids (storeValue (stores (EntityStore_remove 0 Nil articles_world) 0)) = []
   \<and> EntityStore_remove 0 (Ids (One (VNum 1))) (EntityStore_remove 0 Nil articles_world)
       = EntityStore_remove 0 Nil articles_world
   \<and> VNum 5 \<notin> set (ids (storeValue (stores articles_world 0)))
   \<and> entities (storeValue (stores articles_world 0)) (VNum 5) = None
   \<and> ids (storeValue (stores (EntityStore_remove 0 (Ids (One (VNum 5))) articles_world) 0))
       = [VNum 1]
   \<and> entities (storeValue (stores (EntityStore_remove 0 (Ids (One (VNum 5))) articles_world) 0))
       = entities articles_state"
proof -
  have s: "storeValue (stores articles_world 0) = articles_state"
    by (simp add: articles_world_def)
  have h1: "remove_ids (storeValue (stores articles_world 0)) (Pred (\<lambda>e. False)) = Some []"
    by (simp add: remove_ids_def)
  have h2: "ids (storeValue (stores (EntityStore_remove 0 Nil articles_world) 0)) = []"
    by (simp add: remove_storeValue s Let_def remove_ids_def isEmpty_def removeEntities_def
        articles_state_def)
  have a5: "VNum 5 \<notin> set (ids (storeValue (stores articles_world 0)))"
    "entities (storeValue (stores articles_world 0)) (VNum 5) = None"
    by (simp_all add: s articles_state_def)
  have h3: "\<forall>k\<in>set (coerceArray (One (VNum 5))).
          k \<notin> set (ids (storeValue (stores articles_world 0)))
          \<and> entities (storeValue (stores articles_world 0)) k = None"
    using a5 by (simp add: coerceArray_def)
  have i: "ids articles_state = [VNum 1]" by (simp add: articles_state_def)
  show ?thesis
    using remove_noop[of articles_world 0 "Pred (\<lambda>e. False)" "One (VNum 5)"]
      remove_noop[of "EntityStore_remove 0 Nil articles_world" 0 "Ids (One (VNum 1))" "One (VNum 5)"]
      h1 h2 h3 a5 s i
    by simp
qed

text \<open>
  Removing an id that is not there is still a write: outside a transaction the store
  emits once more, a state with the same \<open>ids\<close>.
\<close>

lemma remove_absent_writes:
  "store (stores articles_world 0) = Some [articles_state]
   \<and> map ids (the (store (stores (EntityStore_remove 0 (Ids (One (VNum 5))) articles_world) 0)))
       = [[VNum 1], [VNum 1]]"
  by (simp add: EntityStore_remove_def remove_ids_def isEmpty_def coerceArray_def
      articles_world_def articles_state_def removeEntities_def entityActions_next_def
      world_eval)

text \<open>
  C7. A \<open>remove\<close> with a target (an id, a list of ids or a predicate) leaves \<open>active\<close>
  and the cache flag as they were, whether or not \<open>active\<close> names a removed id. A
  \<open>remove\<close> without a target, on a collection that is not empty, sets the cache flag to
  false.
\<close>

theorem remove_partial_frame:
  "(idsOrFn \<noteq> Nil \<longrightarrow>
      active (storeValue (stores (EntityStore_remove sid idsOrFn w) sid))
        = active (storeValue (stores w sid))
      \<and> cache_active (stores (EntityStore_remove sid idsOrFn w) sid) = cache_active (stores w sid))
   \<and> (ids (storeValue (stores w sid)) \<noteq> [] \<longrightarrow>
        cache_active (stores (EntityStore_remove sid Nil w) sid) = False)"
proof (intro conjI impI)
  assume n: "idsOrFn \<noteq> Nil"
  then obtain xs where r: "remove_ids (storeValue (stores w sid)) idsOrFn = Some xs"
    by (cases idsOrFn) (simp_all add: remove_ids_def)
  show "active (storeValue (stores (EntityStore_remove sid idsOrFn w) sid))
        = active (storeValue (stores w sid))"
    by (simp add: remove_storeValue Let_def r removeEntities_def)
  show "cache_active (stores (EntityStore_remove sid idsOrFn w) sid) = cache_active (stores w sid)"
    by (simp add: remove_cache Let_def r)
next
  assume "ids (storeValue (stores w sid)) \<noteq> []"
  then show "cache_active (stores (EntityStore_remove sid Nil w) sid) = False"
    by (simp add: remove_cache Let_def remove_ids_def isEmpty_def)
qed

theorem remove_partial_frame_witness:
  "Ids (One (VNum 1)) \<noteq> Nil
   \<and> ids (storeValue (stores articles_world 0)) \<noteq> []
   \<and> active (storeValue (stores articles_world 0)) = ActiveId (VNum 1)
   \<and> cache_active (stores articles_world 0) = True
   \<and> ids (storeValue (stores (EntityStore_remove 0 (Ids (One (VNum 1))) articles_world) 0)) = []
   \<and> active (storeValue (stores (EntityStore_remove 0 (Ids (One (VNum 1))) articles_world) 0))
       = ActiveId (VNum 1)
   \<and> cache_active (stores (EntityStore_remove 0 (Ids (One (VNum 1))) articles_world) 0) = True
   \<and> cache_active (stores (EntityStore_remove 0 Nil articles_world) 0) = False"
proof -
  have s: "storeValue (stores articles_world 0) = articles_state"
    and c: "cache_active (stores articles_world 0) = True"
    by (simp_all add: articles_world_def)
  have i: "ids articles_state = [VNum 1]" and a: "active articles_state = ActiveId (VNum 1)"
    by (simp_all add: articles_state_def)
  have r: "ids (storeValue (stores (EntityStore_remove 0 (Ids (One (VNum 1))) articles_world) 0)) = []"
    by (simp add: remove_storeValue s Let_def remove_ids_def isEmpty_def removeEntities_def
        coerceArray_def i)
  show ?thesis
    using remove_partial_frame[of "Ids (One (VNum 1))" 0 articles_world] s c i a r
    by simp
qed

lemma set_storeValue:
  "storeValue (stores (EntityStore_set idKey sid (Some src) w) sid) =
     setEntities (storeValue (stores w sid)) src idKey akitaPreAddEntity True"
  by (simp add: EntityStore_set_def Let_def entityActions_next_frame updateCache_def
      setHasCache_frame setState_storeValue)

text \<open>
  C6. On a collection whose ids are \<open>[1, 2]\<close>, with an entity for each (as after
  \<open>set([{id: 1}, {id: 2}])\<close>), \<open>upsertMany\<close> with \<open>{id: 1, title: 'x'}\<close> and
  \<open>{id: 3, title: 'y'}\<close> merges the first record onto entity 1, keeps entity 2, adds
  the second record as entity 3, and \<open>ids\<close> is \<open>[1, 2, 3]\<close>.
\<close>

theorem upsertMany_scenario:
  assumes "ids (storeValue (stores w sid)) = [VNum 1, VNum 2]"
    and "entities (storeValue (stores w sid)) = [VNum 1 \<mapsto> e1, VNum 2 \<mapsto> e2]"
  shows "ids (storeValue (stores
           (EntityStore_upsertMany ''id'' sid
              [[''id'' \<mapsto> VNum 1, ''title'' \<mapsto> VStr ''x''], [''id'' \<mapsto> VNum 3, ''title'' \<mapsto> VStr ''y'']]
              no_upsertMany_options w) sid))
           = [VNum 1, VNum 2, VNum 3]
       \<and> entities (storeValue (stores
           (EntityStore_upsertMany ''id'' sid
              [[''id'' \<mapsto> VNum 1, ''title'' \<mapsto> VStr ''x''], [''id'' \<mapsto> VNum 3, ''title'' \<mapsto> VStr ''y'']]
              no_upsertMany_options w) sid))
           = [VNum 1 \<mapsto> e1 ++ [''id'' \<mapsto> VNum 1, ''title'' \<mapsto> VStr ''x''],
              VNum 2 \<mapsto> e2,
              VNum 3 \<mapsto> [''id'' \<mapsto> VNum 3, ''title'' \<mapsto> VStr ''y'']]"
proof -
  have f: "fold (upsertMany_step ''id'' (entities (storeValue (stores w sid)))
                   (baseClass no_upsertMany_options))
             [[''id'' \<mapsto> VNum 1, ''title'' \<mapsto> VStr ''x''], [''id'' \<mapsto> VNum 3, ''title'' \<mapsto> VStr ''y'']]
             ([], [], Map.empty)
           = ([VNum 3], [VNum 1],
              [VNum 1 \<mapsto> e1 ++ [''id'' \<mapsto> VNum 1, ''title'' \<mapsto> VStr ''x''],
               VNum 3 \<mapsto> [''id'' \<mapsto> VNum 3, ''title'' \<mapsto> VStr ''y'']])"
    by (simp add: assms(2) upsertMany_step_def entity_id_def hasEntity_def
        no_upsertMany_options_def Let_def)
  show ?thesis
    by (simp only: upsertMany_storeValue f prod.case) (auto simp add: assms fun_eq_iff)
qed

theorem upsertMany_scenario_witness:
  "ids (storeValue (stores
      (EntityStore_set ''id'' 0 (Some (SArray [[''id'' \<mapsto> VNum 1], [''id'' \<mapsto> VNum 2]]))
         articles_world) 0)) = [VNum 1, VNum 2]
   \<and> entities (storeValue (stores
        (EntityStore_set ''id'' 0 (Some (SArray [[''id'' \<mapsto> VNum 1], [''id'' \<mapsto> VNum 2]]))
           articles_world) 0))
       = [VNum 1 \<mapsto> [''id'' \<mapsto> VNum 1], VNum 2 \<mapsto> [''id'' \<mapsto> VNum 2]]
   \<and> ids (storeValue (stores
        (EntityStore_upsertMany ''id'' 0
           [[''id'' \<mapsto> VNum 1, ''title'' \<mapsto> VStr ''x''], [''id'' \<mapsto> VNum 3, ''title'' \<mapsto> VStr ''y'']]
           no_upsertMany_options
           (EntityStore_set ''id'' 0 (Some (SArray [[''id'' \<mapsto> VNum 1], [''id'' \<mapsto> VNum 2]]))
              articles_world)) 0))
       = [VNum 1, VNum 2, VNum 3]
   \<and> entities (storeValue (stores
        (EntityStore_upsertMany ''id'' 0
           [[''id'' \<mapsto> VNum 1, ''title'' \<mapsto> VStr ''x''], [''id'' \<mapsto> VNum 3, ''title'' \<mapsto> VStr ''y'']]
           no_upsertMany_options
           (EntityStore_set ''id'' 0 (Some (SArray [[''id'' \<mapsto> VNum 1], [''id'' \<mapsto> VNum 2]]))
              articles_world)) 0)) (VNum 1)
       = Some [''id'' \<mapsto> VNum 1, ''title'' \<mapsto> VStr ''x'']"
proof -
  let ?w = "EntityStore_set ''id'' 0 (Some (SArray [[''id'' \<mapsto> VNum 1], [''id'' \<mapsto> VNum 2]]))
              articles_world"
  have h1: "ids (storeValue (stores ?w 0)) = [VNum 1, VNum 2]"
    by (simp add: set_storeValue setEntities_def entity_id_def)
  have h2: "entities (storeValue (stores ?w 0))
              = [VNum 1 \<mapsto> [''id'' \<mapsto> VNum 1], VNum 2 \<mapsto> [''id'' \<mapsto> VNum 2]]"
    by (simp add: set_storeValue setEntities_def entity_id_def)
  have m: "[''id'' \<mapsto> VNum 1] ++ [''id'' \<mapsto> VNum 1, ''title'' \<mapsto> VStr ''x'']
             = [''id'' \<mapsto> VNum 1, ''title'' \<mapsto> VStr ''x'']"
    by simp
  show ?thesis
    using upsertMany_scenario[OF h1 h2] h1 h2 m by simp
qed

section \<open>The entity collection plugin: which ids have a satellite\<close>

lemma hasEntity_tracked: "Plugin_hasEntity p k = (k \<in> tracked p)"
  by (simp add: Plugin_hasEntity_def tracked_def)

lemma keys_delete: "fst ` set (AList.delete k al) = fst ` set al - {k}"
proof -
  have "set (map fst (AList.delete k al)) = set (map fst al) - {k}"
    by (simp only: AList.delete_keys set_removeAll)
  then show ?thesis by simp
qed

lemma tracked_entities_upd:
  "tracked (p\<lparr>plugin_entities := AList.update k v (plugin_entities q)\<rparr>) = insert k (tracked q)"
  "tracked (p\<lparr>plugin_entities := AList.delete k (plugin_entities q)\<rparr>) = tracked q - {k}"
  by (simp_all add: tracked_def AList.dom_update keys_delete)

lemma called_frame:
  "plugin_entities (called c p) = plugin_entities p"
  "entityIds (called c p) = entityIds p"
  "tracked (called c p) = tracked p"
  by (simp_all add: called_def tracked_def)

lemma rebase_add_frame:
  "tracked (rebase_add inst actions k p) = insert k (tracked p)"
  "entityIds (rebase_add inst actions k p) = entityIds p"
  by (simp_all add: rebase_add_def Let_def called_frame tracked_entities_upd)

lemma forEachId_called_frame:
  "plugin_entities (fold (\<lambda>k q. if Plugin_hasEntity q k then called (c k) q else q) ks p)
     = plugin_entities p"
  "entityIds (fold (\<lambda>k q. if Plugin_hasEntity q k then called (c k) q else q) ks p)
     = entityIds p"
  by (induction ks arbitrary: p; simp add: called_frame)+

lemma ESH_destroy_frame:
  "plugin_entities (ESH_destroy qids given clearHistory p) = plugin_entities p"
  "entityIds (ESH_destroy qids given clearHistory p) = entityIds p"
  "tracked (ESH_destroy qids given clearHistory p) = tracked p"
  by (simp_all add: ESH_destroy_def Plugin_forEachId_def forEachId_called_frame tracked_def)

lemma ESH_remove_frame:
  "tracked (rebase_remove (\<lambda>k q. ESH_destroy qids (Some (One k)) False q) actions k p)
     = tracked p - {k}"
  "entityIds (rebase_remove (\<lambda>k q. ESH_destroy qids (Some (One k)) False q) actions k p)
     = entityIds p"
  by (simp_all add: rebase_remove_def Plugin_removeEntity_def Let_def ESH_destroy_frame
      called_frame tracked_entities_upd)

lemma add_phase:
  "tracked (fold (\<lambda>k q. if \<not> Plugin_hasEntity q k then rebase_add inst actions k q else q)
              ks p) = tracked p \<union> set ks"
  "entityIds (fold (\<lambda>k q. if \<not> Plugin_hasEntity q k then rebase_add inst actions k q else q)
              ks p) = entityIds p"
  by (induction ks arbitrary: p; auto simp add: rebase_add_frame hasEntity_tracked)+

lemma remove_phase:
  "tracked (fold (\<lambda>k q. if Plugin_hasEntity q k
                         then (if k \<notin> S
                               then rebase_remove (\<lambda>k q. ESH_destroy qids (Some (One k)) False q)
                                      actions k q
                               else q)
                         else q) ks p)
     = tracked p - (set ks - S)"
  "entityIds (fold (\<lambda>k q. if Plugin_hasEntity q k
                         then (if k \<notin> S
                               then rebase_remove (\<lambda>k q. ESH_destroy qids (Some (One k)) False q)
                                      actions k q
                               else q)
                         else q) ks p)
     = entityIds p"
  by (induction ks arbitrary: p; auto simp add: ESH_remove_frame hasEntity_tracked)+

lemma Map_forEach_remove:
  "tracked (Map_forEach
      (\<lambda>k q. if k \<notin> S
              then rebase_remove (\<lambda>k q. ESH_destroy qids (Some (One k)) False q) actions k q
              else q) p) = tracked p \<inter> S"
  "entityIds (Map_forEach
      (\<lambda>k q. if k \<notin> S
              then rebase_remove (\<lambda>k q. ESH_destroy qids (Some (One k)) False q) actions k q
              else q) p) = entityIds p"
  using remove_phase[of S qids actions "map fst (plugin_entities p)" p]
  by (auto simp add: Map_forEach_def tracked_def)

lemma createEntity_frame:
  "tracked (Plugin_createEntity k v p) = insert k (tracked p)"
  "entityIds (Plugin_createEntity k v p) = entityIds p"
  by (simp_all add: Plugin_createEntity_def tracked_entities_upd)

lemma seed_phase:
  "tracked (fold (\<lambda>k q. if \<not> Plugin_hasEntity q k
                         then Plugin_createEntity k (inst k) (called (Instantiate k) q) else q)
              ks p) = tracked p \<union> set ks"
  "entityIds (fold (\<lambda>k q. if \<not> Plugin_hasEntity q k
                         then Plugin_createEntity k (inst k) (called (Instantiate k) q) else q)
              ks p) = entityIds p"
  by (induction ks arbitrary: p;
      auto simp add: createEntity_frame called_frame hasEntity_tracked)+

lemma activate_all_ids:
  assumes "entityIds p = None" and "idList \<noteq> []"
  shows "tracked (ESH_activate inst qids (Some idList) p) = set idList"
    and "entityIds (ESH_activate inst qids (Some idList) p) = None"
  using assms
  by (auto simp add: ESH_activate_def Plugin_rebase_def toBoolean_def Map_forEach_remove
      add_phase)

text \<open>
  Reconciling again with the ids that already have their satellites changes nothing, so
  it does not matter whether the id stream repeats a list.
\<close>

lemma add_phase_noop:
  assumes "set ks \<subseteq> tracked p"
  shows "fold (\<lambda>k q. if \<not> Plugin_hasEntity q k then rebase_add inst actions k q else q) ks p = p"
  using assms by (induction ks) (simp_all add: hasEntity_tracked)

lemma remove_phase_noop:
  assumes "set ks \<subseteq> S"
  shows "fold (\<lambda>k q. if Plugin_hasEntity q k then (if k \<notin> S then f k q else q) else q) ks p = p"
  using assms by (induction ks) simp_all

lemma activate_all_ids_again:
  assumes "entityIds p = None" and "idList \<noteq> []" and "tracked p = set idList"
  shows "ESH_activate inst qids (Some idList) p = p"
proof -
  have "set (map fst (plugin_entities p)) \<subseteq> set idList"
    using assms(3) by (simp add: tracked_def)
  then show ?thesis
    using assms add_phase_noop[of idList p inst no_actions]
      remove_phase_noop[of "map fst (plugin_entities p)" "set idList"
        "rebase_remove (\<lambda>k q. ESH_destroy qids (Some (One k)) False q) no_actions" p]
    by (simp add: ESH_activate_def Plugin_rebase_def toBoolean_def Map_forEach_def)
qed

lemma constructor_all_ids:
  "tracked (ESH_constructor inst qids None) = set qids"
  "entityIds (ESH_constructor inst qids None) = None"
  by (simp_all add: ESH_constructor_def ESH_activate_def Plugin_rebase_def toBoolean_def
      Plugin_getIds_def seed_phase)
    (simp add: tracked_def)

lemma idsChanged_all_ids:
  assumes "entityIds p = None" and "\<forall>idList\<in>set idLists. idList \<noteq> []"
  shows "entityIds (fold (ESH_idsChanged inst) idLists p) = None"
    and "idLists \<noteq> [] \<Longrightarrow> tracked (fold (ESH_idsChanged inst) idLists p) = set (last idLists)"
  using assms
proof (induction idLists arbitrary: p rule: rev_induct)
  case Nil
  { case 1 then show ?case by simp }
  { case 2 then show ?case by simp }
next
  case (snoc idList idLists)
  { case 1
    then show ?case
      using snoc.IH(1)[of p] by (simp add: ESH_idsChanged_def activate_all_ids) }
  { case 2
    then show ?case
      using snoc.IH(1)[of p] by (simp add: ESH_idsChanged_def activate_all_ids) }
qed

text \<open>
  C3. A plugin constructed without \<open>entityIds\<close> on a collection whose ids are \<open>qids\<close>,
  and then called by its subscription with every new id list of the collection, none of
  them empty: the ids that have a satellite are exactly the ids of the last list, that
  is the current ids of the collection (\<open>qids\<close> itself if the list never changed).
\<close>

theorem all_ids_reconciliation:
  assumes "\<forall>idList\<in>set idLists. idList \<noteq> []"
  shows "set (map fst (plugin_entities
           (fold (ESH_idsChanged inst) idLists (ESH_constructor inst qids None))))
         = set (last (qids # idLists))"
proof (cases "idLists = []")
  case True
  then show ?thesis using constructor_all_ids(1)[of inst qids] by (simp add: tracked_def)
next
  case False
  then show ?thesis
    using idsChanged_all_ids(2)[OF constructor_all_ids(2) assms False, of inst inst qids]
    by (simp add: tracked_def)
qed

theorem all_ids_reconciliation_witness:
  "[VNum 1, VNum 2] \<noteq> [] \<and> [VNum 2, VNum 3] \<noteq> []
   \<and> set (map fst (plugin_entities
         (fold (ESH_idsChanged new_history) [[VNum 1, VNum 2], [VNum 2, VNum 3]]
            (ESH_constructor new_history [VNum 1] None))))
       = {VNum 2, VNum 3}"
proof -
  have h: "\<forall>idList\<in>set [[VNum 1, VNum 2], [VNum 2, VNum 3]]. idList \<noteq> []" by simp
  show ?thesis
    using all_ids_reconciliation[OF h, of new_history "[VNum 1]"] by simp
qed

text \<open>The seed path of \<open>rebase\<close>.\<close>

lemma seed_keeps:
  assumes "k \<in> tracked p"
  shows "Plugin_getEntity
           (fold (\<lambda>k q. if \<not> Plugin_hasEntity q k
                         then Plugin_createEntity k (inst k) (called (Instantiate k) q) else q)
              ks p) k = Plugin_getEntity p k"
  using assms
proof (induction ks arbitrary: p)
  case Nil
  then show ?case by simp
next
  case (Cons k0 ks)
  show ?case
  proof (cases "k0 \<in> tracked p")
    case True
    then show ?thesis using Cons by (simp add: hasEntity_tracked)
  next
    case False
    let ?p1 = "Plugin_createEntity k0 (inst k0) (called (Instantiate k0) p)"
    have ne: "k \<noteq> k0" using False Cons.prems by auto
    have "k \<in> tracked ?p1" using Cons.prems by (simp add: createEntity_frame called_frame)
    then have "Plugin_getEntity (fold (\<lambda>k q. if \<not> Plugin_hasEntity q k
                         then Plugin_createEntity k (inst k) (called (Instantiate k) q) else q)
              ks ?p1) k = Plugin_getEntity ?p1 k"
      by (rule Cons.IH)
    moreover have "Plugin_getEntity ?p1 k = Plugin_getEntity p k"
      using ne by (simp add: Plugin_getEntity_def Plugin_createEntity_def called_def
          AList.update_conv')
    ultimately show ?thesis using False by (simp add: hasEntity_tracked)
  qed
qed

lemma seed_creates:
  assumes "k \<in> set ks" and "k \<notin> tracked p"
  shows "Plugin_getEntity
           (fold (\<lambda>k q. if \<not> Plugin_hasEntity q k
                         then Plugin_createEntity k (inst k) (called (Instantiate k) q) else q)
              ks p) k = Some (inst k)"
  using assms
proof (induction ks arbitrary: p)
  case Nil
  then show ?case by simp
next
  case (Cons k0 ks)
  let ?p1 = "Plugin_createEntity k0 (inst k0) (called (Instantiate k0) p)"
  show ?case
  proof (cases "k0 \<in> tracked p")
    case True
    then have "k \<in> set ks" using Cons.prems by auto
    then show ?thesis using Cons.IH[of p] Cons.prems(2) True by (simp add: hasEntity_tracked)
  next
    case False
    show ?thesis
    proof (cases "k = k0")
      case True
      have "k \<in> tracked ?p1" using True by (simp add: createEntity_frame)
      then have "Plugin_getEntity (fold (\<lambda>k q. if \<not> Plugin_hasEntity q k
                         then Plugin_createEntity k (inst k) (called (Instantiate k) q) else q)
              ks ?p1) k = Plugin_getEntity ?p1 k"
        by (rule seed_keeps)
      moreover have "Plugin_getEntity ?p1 k = Some (inst k)"
        using True by (simp add: Plugin_getEntity_def Plugin_createEntity_def AList.update_conv')
      ultimately show ?thesis using False by (simp add: hasEntity_tracked)
    next
      case ne: False
      then have "k \<in> set ks" and "k \<notin> tracked ?p1"
        using Cons.prems by (simp_all add: createEntity_frame called_frame)
      then show ?thesis using Cons.IH[of ?p1] False by (simp add: hasEntity_tracked)
    qed
  qed
qed

lemma seed_calls:
  "\<exists>created. calls
           (fold (\<lambda>k q. if \<not> Plugin_hasEntity q k
                         then Plugin_createEntity k (inst k) (called (Instantiate k) q) else q)
              ks p) = calls p @ map Instantiate created"
proof (induction ks arbitrary: p)
  case Nil
  then show ?case by simp
next
  case (Cons k0 ks)
  show ?case
  proof (cases "k0 \<in> tracked p")
    case True
    then show ?thesis using Cons.IH[of p] by (simp add: hasEntity_tracked)
  next
    case False
    let ?p1 = "Plugin_createEntity k0 (inst k0) (called (Instantiate k0) p)"
    obtain created where "calls (fold (\<lambda>k q. if \<not> Plugin_hasEntity q k
                         then Plugin_createEntity k (inst k) (called (Instantiate k) q) else q)
              ks ?p1) = calls ?p1 @ map Instantiate created"
      using Cons.IH[of ?p1] by blast
    moreover have "calls ?p1 = calls p @ [Instantiate k0]"
      by (simp add: Plugin_createEntity_def called_def)
    ultimately have "calls (fold (\<lambda>k q. if \<not> Plugin_hasEntity q k
                         then Plugin_createEntity k (inst k) (called (Instantiate k) q) else q)
              (k0 # ks) p) = calls p @ map Instantiate (k0 # created)"
      using False by (simp add: hasEntity_tracked)
    then show ?thesis by blast
  qed
qed

lemma seed_noop:
  assumes "set ks \<subseteq> tracked p"
  shows "fold (\<lambda>k q. if \<not> Plugin_hasEntity q k
                      then Plugin_createEntity k (inst k) (called (Instantiate k) q) else q)
           ks p = p"
  using assms by (induction ks) (simp_all add: hasEntity_tracked)

lemma rebase_seed:
  assumes "\<not> toBoolean changed"
  shows "Plugin_rebase inst destroy qids changed actions p =
           fold (\<lambda>k q. if \<not> Plugin_hasEntity q k
                        then Plugin_createEntity k (inst k) (called (Instantiate k) q) else q)
                (Plugin_getIds qids p) p"
  using assms by (simp add: Plugin_rebase_def)

text \<open>
  C8, as the code has it. A call of \<open>rebase\<close> with a value of \<open>changedIds\<close> that
  \<open>toBoolean\<close> rejects runs the seed path, on the first call as on every later one:
  every tracked id (the ids of the collection, or the fixed subset) has a satellite
  afterwards, a new one from \<open>instantiatePlugin\<close> where it had none; the satellites that
  existed are kept; nothing is called but \<open>instantiatePlugin\<close> (no \<open>destroy\<close>, no
  callback); and the plugin is unchanged exactly when every tracked id had its satellite.
\<close>

theorem rebase_falsy_seeds:
  assumes "\<not> toBoolean changed"
  shows "tracked (Plugin_rebase inst destroy qids changed actions p)
           = tracked p \<union> set (Plugin_getIds qids p)
       \<and> (\<forall>k\<in>tracked p. Plugin_getEntity (Plugin_rebase inst destroy qids changed actions p) k
                           = Plugin_getEntity p k)
       \<and> (\<forall>k\<in>set (Plugin_getIds qids p) - tracked p.
             Plugin_getEntity (Plugin_rebase inst destroy qids changed actions p) k = Some (inst k))
       \<and> (\<exists>created. calls (Plugin_rebase inst destroy qids changed actions p)
                       = calls p @ map Instantiate created)
       \<and> ((Plugin_rebase inst destroy qids changed actions p = p)
            = (set (Plugin_getIds qids p) \<subseteq> tracked p))"
proof -
  let ?p' = "Plugin_rebase inst destroy qids changed actions p"
  note r = rebase_seed[OF assms, of inst destroy qids actions p]
  have t: "tracked ?p' = tracked p \<union> set (Plugin_getIds qids p)"
    by (simp add: r seed_phase)
  have "?p' = p \<Longrightarrow> set (Plugin_getIds qids p) \<subseteq> tracked p"
    using t by auto
  moreover have "set (Plugin_getIds qids p) \<subseteq> tracked p \<Longrightarrow> ?p' = p"
    by (simp add: r seed_noop)
  ultimately have n: "(?p' = p) = (set (Plugin_getIds qids p) \<subseteq> tracked p)" by blast
  show ?thesis
    using t n seed_calls[of inst "Plugin_getIds qids p" p]
    by (simp add: r seed_keeps seed_creates)
qed

theorem rebase_falsy_seeds_witness:
  "\<not> toBoolean None
   \<and> tracked (ESH_constructor new_history [] None) = {}
   \<and> tracked (Plugin_rebase new_history (\<lambda>k q. q) [VNum 1] None no_actions
        (ESH_constructor new_history [] None)) = {VNum 1}
   \<and> Plugin_getEntity (Plugin_rebase new_history (\<lambda>k q. q) [VNum 1] None no_actions
        (ESH_constructor new_history [] None)) (VNum 1) = Some (new_history (VNum 1))
   \<and> Plugin_rebase new_history (\<lambda>k q. q) [VNum 1] None no_actions
        (ESH_constructor new_history [VNum 1] None) = ESH_constructor new_history [VNum 1] None"
proof -
  have h: "\<not> toBoolean None" by (simp add: toBoolean_def)
  have e: "entityIds (ESH_constructor new_history [] None) = None"
    "entityIds (ESH_constructor new_history [VNum 1] None) = None"
    by (rule constructor_all_ids(2))+
  have t: "tracked (ESH_constructor new_history [] None) = {}"
    "tracked (ESH_constructor new_history [VNum 1] None) = {VNum 1}"
    by (simp_all add: constructor_all_ids(1))
  show ?thesis
    using rebase_falsy_seeds[OF h, of new_history "\<lambda>k q. q" "[VNum 1]" no_actions
        "ESH_constructor new_history [] None"]
      rebase_falsy_seeds[OF h, of new_history "\<lambda>k q. q" "[VNum 1]" no_actions
        "ESH_constructor new_history [VNum 1] None"]
      h e t
    by (simp add: Plugin_getIds_def)
qed

text \<open>
  C8, as the claim states it, fails: a plugin constructed on an empty collection has no
  satellite after its initial activation; a second call of \<open>activate\<close> with no argument,
  when the collection holds id 1, creates a satellite for id 1.
\<close>

theorem activate_falsy_counterexample:
  "plugin_entities (ESH_constructor new_history [] None) = []
   \<and> plugin_entities (ESH_activate new_history [VNum 1] None (ESH_constructor new_history [] None))
       = [(VNum 1, new_history (VNum 1))]
   \<and> calls (ESH_activate new_history [VNum 1] None (ESH_constructor new_history [] None))
       = [Instantiate (VNum 1)]"
  by (simp add: ESH_constructor_def ESH_activate_def Plugin_rebase_def toBoolean_def
      Plugin_getIds_def Plugin_hasEntity_def Plugin_createEntity_def called_def)

text \<open>
  C10. For an id without a satellite, \<open>hasPast\<close> and \<open>hasFuture\<close> return \<open>undefined\<close>:
  no boolean and no exception. For an id with a satellite they return that satellite's
  \<open>hasPast\<close> and \<open>hasFuture\<close>.
\<close>

theorem hasPast_hasFuture_result:
  "(\<not> Plugin_hasEntity p k \<longrightarrow> ESH_hasPast p k = Inr None \<and> ESH_hasFuture p k = Inr None)
   \<and> (Plugin_hasEntity p k \<longrightarrow>
        (\<exists>e. Plugin_getEntity p k = Some e
              \<and> ESH_hasPast p k = Inr (Some (hasPast e))
              \<and> ESH_hasFuture p k = Inr (Some (hasFuture e))))"
proof (cases "Plugin_hasEntity p k")
  case True
  then have "map_of (plugin_entities p) k \<noteq> None"
    by (simp add: Plugin_hasEntity_def map_of_eq_None_iff)
  then obtain e where "Plugin_getEntity p k = Some e"
    by (auto simp add: Plugin_getEntity_def)
  then show ?thesis using True by (simp add: ESH_hasPast_def ESH_hasFuture_def)
next
  case False
  then show ?thesis by (simp add: ESH_hasPast_def ESH_hasFuture_def)
qed

theorem hasPast_hasFuture_result_witness:
  "\<not> Plugin_hasEntity (ESH_constructor used_history [VNum 1] None) (VNum 2)
   \<and> ESH_hasPast (ESH_constructor used_history [VNum 1] None) (VNum 2) = Inr None
   \<and> ESH_hasFuture (ESH_constructor used_history [VNum 1] None) (VNum 2) = Inr None
   \<and> Plugin_hasEntity (ESH_constructor used_history [VNum 1] None) (VNum 1)
   \<and> ESH_hasPast (ESH_constructor used_history [VNum 1] None) (VNum 1) = Inr (Some True)
   \<and> ESH_hasFuture (ESH_constructor used_history [VNum 1] None) (VNum 1) = Inr (Some False)"
proof -
  have t: "tracked (ESH_constructor used_history [VNum 1] None) = {VNum 1}"
    by (simp add: constructor_all_ids(1))
  have g: "Plugin_getEntity (ESH_constructor used_history [VNum 1] None) (VNum 1)
             = Some (used_history (VNum 1))"
    by (simp add: ESH_constructor_def ESH_activate_def Plugin_rebase_def toBoolean_def
        Plugin_getIds_def Plugin_hasEntity_def Plugin_createEntity_def called_def
        Plugin_getEntity_def)
  have v: "hasPast (used_history (VNum 1))" "\<not> hasFuture (used_history (VNum 1))"
    by (simp_all add: hasPast_def hasFuture_def used_history_def)
  show ?thesis
    using hasPast_hasFuture_result[of "ESH_constructor used_history [VNum 1] None" "VNum 1"]
      hasPast_hasFuture_result[of "ESH_constructor used_history [VNum 1] None" "VNum 2"]
      t g v
    by (simp add: hasEntity_tracked)
qed

end
